theory Spec2Isabelle
  imports Main "HOL-Library.Word"
begin

unbundle bit_operations_syntax

section \<open>Bytes, machine integers and errors\<close>

text \<open>
  Go's \<open>byte\<close>, \<open>uint32\<close> and \<open>uint64\<close> are words of that width. Go's \<open>int\<close> is the
  64-bit signed integer; it is an \<open>int\<close> here, with the wrap-around written out
  (\<open>wrap64\<close>) where the source does arithmetic on it. A byte slice is a list of bytes;
  a nil slice and an empty slice are both the empty list.
\<close>

type_synonym byte = "8 word"
type_synonym uint32 = "32 word"
type_synonym uint64 = "64 word"

text \<open>
  The error values of package rdgproto (message.go, serialize.go), the two errors of
  package io that the readers return, any other error value that code outside the
  package (a signer, a user payload) may return, and a run-time panic.
\<close>

datatype error =
    ErrInvalidMessage
  | ErrPayloadTooLarge
  | ErrSignatureRequired
  | ErrInvalidSignature
  | ErrStreamInterrupted
  | ErrStreamMismatch
  | ErrInvalidPayloadType
  | ErrUnknownMessageType
  | ErrBufferTooSmall
  | ErrInvalidStringLen
  | ErrInvalidBytesLen
  | ErrVarintOverflow
  | EOF
  | ErrUnexpectedEOF
  | ErrExternal string
  | Panic

definition MaxPayloadSize :: nat where
  "MaxPayloadSize = 100 * 1024 * 1024"

definition MessageTypeStreamStart :: byte where
  "MessageTypeStreamStart = 250"

definition MessageTypeStreamChunk :: byte where
  "MessageTypeStreamChunk = 251"

definition MessageTypeStreamEnd :: byte where
  "MessageTypeStreamEnd = 252"

definition IsReservedType :: "byte \<Rightarrow> bool" where
  "IsReservedType messageType \<longleftrightarrow> messageType \<ge> 250"

definition MessageTypeSize :: nat where
  "MessageTypeSize = 1"

definition MessageIDSize :: nat where
  "MessageIDSize = 4"

definition PayloadLengthSize :: nat where
  "PayloadLengthSize = 4"

definition HeaderSize :: nat where
  "HeaderSize = MessageTypeSize + MessageIDSize + PayloadLengthSize"

definition SignatureLengthSize :: nat where
  "SignatureLengthSize = 4"

definition StreamingThreshold :: int where
  "StreamingThreshold = 1024 * 1024"

definition DefaultChunkSize :: int where
  "DefaultChunkSize = 64 * 1024"

text \<open>Arithmetic on Go's \<open>int\<close>: results wrap into the signed 64-bit range, and the
  quotient truncates towards zero.\<close>

definition wrap64 :: "int \<Rightarrow> int" where
  "wrap64 x = (x + 2 ^ 63) mod 2 ^ 64 - 2 ^ 63"

definition go_div :: "int \<Rightarrow> int \<Rightarrow> int" where
  "go_div a b = wrap64 (sgn a * sgn b * (\<bar>a\<bar> div \<bar>b\<bar>))"

section \<open>Data model and payload registry\<close>

record Message =
  Type :: byte
  ID :: uint32
  Payload :: "byte list"
  Signature :: "byte list"

record StreamHeader =
  OriginalType :: byte
  TotalSize :: uint64
  TotalChunks :: uint32

record StreamChunk =
  ChunkIndex :: uint32
  Data :: "byte list"

record StreamConfig =
  Threshold :: int
  ChunkSize :: int
  Enabled :: bool

definition DefaultStreamConfig :: StreamConfig where
  "DefaultStreamConfig =
     \<lparr>Threshold = StreamingThreshold, ChunkSize = DefaultChunkSize, Enabled = True\<rparr>"

text \<open>
  A value passed as \<open>payload interface{}\<close>: nil, a raw byte slice, one of the package's
  two payload structs, a payload of a user-defined type \<open>'u\<close> (its \<open>Marshal\<close> method is
  the parameter \<open>um\<close> of the functions below), or a value that is neither a byte slice
  nor a \<open>PayloadMarshaler\<close>.
\<close>

datatype 'u payload =
    PNil
  | PBytes "byte list"
  | PStreamHeader StreamHeader
  | PStreamChunk StreamChunk
  | PUser 'u
  | PUnsupported

text \<open>
  A \<open>PayloadFactory\<close> makes a fresh object whose \<open>Unmarshal\<close> method is then called on
  the payload bytes. The two built-in factories make a \<open>StreamHeader\<close> and a
  \<open>StreamChunk\<close>; a user factory is given by the \<open>Unmarshal\<close> of the object it makes.
  A Go function value may be nil: \<open>None\<close>.
\<close>

datatype 'u factory =
    StreamHeaderFactory
  | StreamChunkFactory
  | UserFactory "byte list \<Rightarrow> error + 'u"

type_synonym 'u PayloadFactory = "'u factory option"

record 'u PayloadRegistry =
  handlers :: "byte \<rightharpoonup> 'u PayloadFactory"

definition registerStreamingTypes :: "'u PayloadRegistry \<Rightarrow> 'u PayloadRegistry" where
  "registerStreamingTypes r =
     r\<lparr>handlers := (handlers r)
         (MessageTypeStreamStart \<mapsto> Some StreamHeaderFactory,
          MessageTypeStreamChunk \<mapsto> Some StreamChunkFactory)\<rparr>"

definition NewPayloadRegistry :: "'u PayloadRegistry" where
  "NewPayloadRegistry = registerStreamingTypes \<lparr>handlers = Map.empty\<rparr>"

definition Register :: "'u PayloadRegistry \<Rightarrow> byte \<Rightarrow> 'u PayloadFactory \<Rightarrow> 'u PayloadRegistry" where
  "Register r messageType factory =
     (if IsReservedType messageType then r
      else r\<lparr>handlers := (handlers r)(messageType \<mapsto> factory)\<rparr>)"

definition Unregister :: "'u PayloadRegistry \<Rightarrow> byte \<Rightarrow> 'u PayloadRegistry" where
  "Unregister r messageType =
     (if IsReservedType messageType then r
      else r\<lparr>handlers := (handlers r)(messageType := None)\<rparr>)"

text \<open>\<open>Get\<close> reads the map: a missing key gives the zero value, the nil factory.\<close>

definition Get :: "'u PayloadRegistry \<Rightarrow> byte \<Rightarrow> 'u PayloadFactory" where
  "Get r messageType = (case handlers r messageType of None \<Rightarrow> None | Some f \<Rightarrow> f)"

definition Has :: "'u PayloadRegistry \<Rightarrow> byte \<Rightarrow> bool" where
  "Has r messageType \<longleftrightarrow> handlers r messageType \<noteq> None"

section \<open>Primitive codec (serialize.go)\<close>

text \<open>
  A \<open>bytes.Buffer\<close> is the list of bytes written so far; a write returns the longer
  list. A \<open>bytes.Reader\<close> is the list of bytes not yet read; a read returns the value
  and the rest, or the error.
\<close>

function WriteVarint :: "byte list \<Rightarrow> uint64 \<Rightarrow> byte list" where
  "WriteVarint buf v =
     (if v \<ge> 0x80 then WriteVarint (buf @ [ucast v OR 0x80]) (drop_bit 7 v)
      else buf @ [ucast v])"
  by pat_completeness auto
termination
proof (relation "measure (\<lambda>(buf, v). unat v)")
  show "wf (measure (\<lambda>(buf, v). unat v))" by simp
next
  fix buf :: "byte list" and v :: uint64
  assume "0x80 \<le> v"
  then have "0 < unat v" by (simp add: word_le_nat_alt)
  then have "unat v div 2 ^ 7 < unat v" by simp
  then show "((buf @ [ucast v OR 0x80], drop_bit 7 v), (buf, v)) \<in> measure (\<lambda>(buf, v). unat v)"
    by (simp add: unat_drop_bit_eq drop_bit_eq_div unat_div)
qed

declare WriteVarint.simps [simp del]

text \<open>The loop of \<open>ReadVarint\<close>; its two branches (\<open>io.ByteReader\<close> or not) read one
  byte at a time in the same way. \<open>shift\<close> is a Go \<open>uint\<close>; it stays below 71.\<close>

fun ReadVarint_loop :: "uint64 \<Rightarrow> nat \<Rightarrow> byte list \<Rightarrow> error + (uint64 \<times> byte list)" where
  "ReadVarint_loop result shift [] = Inl EOF"
| "ReadVarint_loop result shift (b # r) =
     (if shift \<ge> 64 then Inl ErrVarintOverflow
      else let result' = result OR push_bit shift (ucast (b AND 0x7F))
           in if b AND 0x80 = 0 then Inr (result', r)
              else ReadVarint_loop result' (shift + 7) r)"

definition ReadVarint :: "byte list \<Rightarrow> error + (uint64 \<times> byte list)" where
  "ReadVarint r = ReadVarint_loop 0 0 r"

text \<open>\<open>(*bytes.Reader).ReadByte\<close> and \<open>io.ReadFull\<close>: a read of no bytes succeeds
  without touching the reader; otherwise no byte at all is \<open>io.EOF\<close> and too few bytes
  are \<open>io.ErrUnexpectedEOF\<close>.\<close>

definition ReadByte :: "byte list \<Rightarrow> error + (byte \<times> byte list)" where
  "ReadByte r = (case r of [] \<Rightarrow> Inl EOF | b # r' \<Rightarrow> Inr (b, r'))"

definition ReadFull :: "nat \<Rightarrow> byte list \<Rightarrow> error + (byte list \<times> byte list)" where
  "ReadFull n r =
     (if n = 0 then Inr ([], r)
      else if r = [] then Inl EOF
      else if length r < n then Inl ErrUnexpectedEOF
      else Inr (take n r, drop n r))"

definition WriteBytes :: "byte list \<Rightarrow> byte list \<Rightarrow> byte list" where
  "WriteBytes buf b = WriteVarint buf (of_nat (length b)) @ b"

definition ReadBytes :: "byte list \<Rightarrow> error + (byte list \<times> byte list)" where
  "ReadBytes r =
     (case ReadVarint r of
        Inl e \<Rightarrow> Inl e
      | Inr (len, r') \<Rightarrow>
          if len > 2 ^ 30 then Inl ErrInvalidBytesLen
          else ReadFull (unat len) r')"

definition WriteUint32 :: "byte list \<Rightarrow> uint32 \<Rightarrow> byte list" where
  "WriteUint32 buf v = WriteVarint buf (ucast v)"

definition ReadUint32 :: "byte list \<Rightarrow> error + (uint32 \<times> byte list)" where
  "ReadUint32 r =
     (case ReadVarint r of
        Inl e \<Rightarrow> Inl e
      | Inr (v, r') \<Rightarrow>
          if v > 0xFFFFFFFF then Inl ErrVarintOverflow
          else Inr (ucast v, r'))"

definition WriteUint64 :: "byte list \<Rightarrow> uint64 \<Rightarrow> byte list" where
  "WriteUint64 buf v = WriteVarint buf v"

definition ReadUint64 :: "byte list \<Rightarrow> error + (uint64 \<times> byte list)" where
  "ReadUint64 r = ReadVarint r"

text \<open>\<open>binary.BigEndian\<close> on a \<open>uint32\<close>, as \<open>binary.Write\<close> and \<open>binary.Read\<close> use it.\<close>

definition PutUint32 :: "uint32 \<Rightarrow> byte list" where
  "PutUint32 v = [ucast (drop_bit 24 v), ucast (drop_bit 16 v), ucast (drop_bit 8 v), ucast v]"

definition Uint32 :: "byte list \<Rightarrow> uint32" where
  "Uint32 b = ucast (b ! 3) OR push_bit 8 (ucast (b ! 2))
                OR push_bit 16 (ucast (b ! 1)) OR push_bit 24 (ucast (b ! 0))"

definition binary_Write_uint32 :: "byte list \<Rightarrow> uint32 \<Rightarrow> byte list" where
  "binary_Write_uint32 buf v = buf @ PutUint32 v"

definition binary_Read_uint32 :: "byte list \<Rightarrow> error + (uint32 \<times> byte list)" where
  "binary_Read_uint32 r =
     (case ReadFull 4 r of
        Inl e \<Rightarrow> Inl e
      | Inr (b, r') \<Rightarrow> Inr (Uint32 b, r'))"

subsection \<open>The payloads of the streaming sub-messages\<close>

definition StreamHeader_Marshal :: "StreamHeader \<Rightarrow> byte list" where
  "StreamHeader_Marshal p =
     WriteUint32 (WriteUint64 ([] @ [OriginalType p]) (TotalSize p)) (TotalChunks p)"

definition StreamHeader_Unmarshal :: "byte list \<Rightarrow> error + StreamHeader" where
  "StreamHeader_Unmarshal data =
     (case ReadByte data of
        Inl e \<Rightarrow> Inl e
      | Inr (originalType, r1) \<Rightarrow>
          (case ReadUint64 r1 of
             Inl e \<Rightarrow> Inl e
           | Inr (totalSize, r2) \<Rightarrow>
               (case ReadUint32 r2 of
                  Inl e \<Rightarrow> Inl e
                | Inr (totalChunks, r3) \<Rightarrow>
                    Inr \<lparr>OriginalType = originalType, TotalSize = totalSize,
                         TotalChunks = totalChunks\<rparr>)))"

definition StreamChunk_Marshal :: "StreamChunk \<Rightarrow> byte list" where
  "StreamChunk_Marshal p = WriteBytes (WriteUint32 [] (ChunkIndex p)) (Data p)"

definition StreamChunk_Unmarshal :: "byte list \<Rightarrow> error + StreamChunk" where
  "StreamChunk_Unmarshal data =
     (case ReadUint32 data of
        Inl e \<Rightarrow> Inl e
      | Inr (chunkIndex, r1) \<Rightarrow>
          (case ReadBytes r1 of
             Inl e \<Rightarrow> Inl e
           | Inr (d, r2) \<Rightarrow> Inr \<lparr>ChunkIndex = chunkIndex, Data = d\<rparr>))"

subsection \<open>Payload marshalling and the registry lookup\<close>

definition MarshalPayload :: "('u \<Rightarrow> error + byte list) \<Rightarrow> 'u payload \<Rightarrow> error + byte list" where
  "MarshalPayload um payload =
     (case payload of
        PNil \<Rightarrow> Inr []
      | PBytes b \<Rightarrow> Inr b
      | PStreamHeader h \<Rightarrow> Inr (StreamHeader_Marshal h)
      | PStreamChunk c \<Rightarrow> Inr (StreamChunk_Marshal c)
      | PUser u \<Rightarrow> um u
      | PUnsupported \<Rightarrow> Inl ErrInvalidPayloadType)"

text \<open>\<open>p := factory(); p.Unmarshal(data)\<close>: the object made and filled, or the error.\<close>

definition factory_Unmarshal :: "'u factory \<Rightarrow> byte list \<Rightarrow> error + 'u payload" where
  "factory_Unmarshal f data =
     (case f of
        StreamHeaderFactory \<Rightarrow>
          (case StreamHeader_Unmarshal data of Inl e \<Rightarrow> Inl e | Inr h \<Rightarrow> Inr (PStreamHeader h))
      | StreamChunkFactory \<Rightarrow>
          (case StreamChunk_Unmarshal data of Inl e \<Rightarrow> Inl e | Inr c \<Rightarrow> Inr (PStreamChunk c))
      | UserFactory unmarshal \<Rightarrow>
          (case unmarshal data of Inl e \<Rightarrow> Inl e | Inr u \<Rightarrow> Inr (PUser u)))"

definition UnmarshalPayloadWithRegistryStrict ::
  "byte \<Rightarrow> byte list \<Rightarrow> 'u PayloadRegistry \<Rightarrow> bool \<Rightarrow> error + 'u payload" where
  "UnmarshalPayloadWithRegistryStrict messageType data registry strict =
     (case Get registry messageType of
        Some factory \<Rightarrow> factory_Unmarshal factory data
      | None \<Rightarrow> if strict then Inl ErrUnknownMessageType else Inr (PBytes data))"

text \<open>The functions that use the process-wide \<open>globalRegistry\<close> take its current
  value as their first argument.\<close>

definition UnmarshalPayloadStrict ::
  "'u PayloadRegistry \<Rightarrow> byte \<Rightarrow> byte list \<Rightarrow> bool \<Rightarrow> error + 'u payload" where
  "UnmarshalPayloadStrict globalRegistry messageType data strict =
     (case Get globalRegistry messageType of
        Some factory \<Rightarrow> factory_Unmarshal factory data
      | None \<Rightarrow> if strict then Inl ErrUnknownMessageType else Inr (PBytes data))"

definition UnmarshalPayload :: "'u PayloadRegistry \<Rightarrow> byte \<Rightarrow> byte list \<Rightarrow> error + 'u payload" where
  "UnmarshalPayload globalRegistry messageType data =
     UnmarshalPayloadStrict globalRegistry messageType data False"

definition UnmarshalPayloadWithRegistry ::
  "byte \<Rightarrow> byte list \<Rightarrow> 'u PayloadRegistry \<Rightarrow> error + 'u payload" where
  "UnmarshalPayloadWithRegistry messageType data registry =
     UnmarshalPayloadWithRegistryStrict messageType data registry False"

section \<open>Message codec (message.go)\<close>

text \<open>
  A \<open>Signer\<close> returns the signature or its error; a \<open>Verifier\<close> returns its error or
  nil (\<open>None\<close>). A nil options pointer, and a nil field of the options, is \<open>None\<close>.
\<close>

record 'u MessageOptions =
  Signer :: "(byte list \<Rightarrow> error + byte list) option"
  Verifier :: "(byte list \<Rightarrow> byte list \<Rightarrow> error option) option"
  Registry :: "'u PayloadRegistry option"
  StreamConfig :: "StreamConfig option"
  StrictMode :: bool

definition StrictMessageOptions :: "'u MessageOptions" where
  "StrictMessageOptions =
     \<lparr>Signer = None, Verifier = None, Registry = None, StreamConfig = None, StrictMode = True\<rparr>"

definition MarshalMessage ::
  "('u \<Rightarrow> error + byte list) \<Rightarrow> byte \<Rightarrow> uint32 \<Rightarrow> 'u payload \<Rightarrow> 'u MessageOptions option
     \<Rightarrow> error + byte list" where
  "MarshalMessage um messageType messageID payload opts =
     (case MarshalPayload um payload of
        Inl e \<Rightarrow> Inl e
      | Inr payloadBytes \<Rightarrow>
          if length payloadBytes > MaxPayloadSize then Inl ErrPayloadTooLarge
          else
            let buf = [] @ [messageType];
                buf = binary_Write_uint32 buf messageID;
                buf = binary_Write_uint32 buf (of_nat (length payloadBytes));
                buf = buf @ payloadBytes
            in (case (case opts of None \<Rightarrow> None | Some opt \<Rightarrow> Signer opt) of
                  Some sign \<Rightarrow>
                    (case sign buf of
                       Inl e \<Rightarrow> Inl e
                     | Inr signature \<Rightarrow>
                         Inr (binary_Write_uint32 buf (of_nat (length signature)) @ signature))
                | None \<Rightarrow> Inr (binary_Write_uint32 buf 0)))"

text \<open>
  \<open>UnmarshalMessage\<close> returns \<open>(msg, payloadObj, nil)\<close>, here \<open>Inr (msg, payloadObj)\<close>, or
  an error together with the message pointer, which is nil except when only the
  decoding of the payload failed.
\<close>

definition UnmarshalMessage ::
  "'u PayloadRegistry \<Rightarrow> byte list \<Rightarrow> 'u MessageOptions option
     \<Rightarrow> (error \<times> Message option) + (Message \<times> 'u payload)" where
  "UnmarshalMessage globalRegistry data opts =
     (if length data < HeaderSize + SignatureLengthSize then Inl (ErrInvalidMessage, None)
      else case ReadByte data of
        Inl e \<Rightarrow> Inl (e, None)
      | Inr (messageType, r1) \<Rightarrow>
      (case binary_Read_uint32 r1 of
        Inl e \<Rightarrow> Inl (e, None)
      | Inr (messageID, r2) \<Rightarrow>
      (case binary_Read_uint32 r2 of
        Inl e \<Rightarrow> Inl (e, None)
      | Inr (payloadLen, r3) \<Rightarrow>
      if unat payloadLen > MaxPayloadSize then Inl (ErrPayloadTooLarge, None)
      else
      (case ReadFull (unat payloadLen) r3 of
        Inl e \<Rightarrow> Inl (e, None)
      | Inr (payload, r4) \<Rightarrow>
      (case binary_Read_uint32 r4 of
        Inl e \<Rightarrow> Inl (e, None)
      | Inr (sigLen, r5) \<Rightarrow>
      (case (if sigLen > 0 then ReadFull (unat sigLen) r5 else Inr ([], r5)) of
        Inl e \<Rightarrow> Inl (e, None)
      | Inr (signature, r6) \<Rightarrow>
      (case (case (case opts of None \<Rightarrow> None | Some opt \<Rightarrow> Verifier opt) of
               None \<Rightarrow> None
             | Some verify \<Rightarrow>
                 if sigLen = 0 then Some ErrSignatureRequired
                 else let messageDataLen = HeaderSize + unat payloadLen
                      in (case verify (take messageDataLen data) signature of
                            Some e \<Rightarrow> Some ErrInvalidSignature
                          | None \<Rightarrow> None)) of
        Some e \<Rightarrow> Inl (e, None)
      | None \<Rightarrow>
          let msg = \<lparr>Type = messageType, ID = messageID, Payload = payload,
                     Signature = signature\<rparr>;
              strictMode = (case opts of None \<Rightarrow> False | Some opt \<Rightarrow> StrictMode opt)
          in (case (case (case opts of None \<Rightarrow> None | Some opt \<Rightarrow> Registry opt) of
                      Some registry \<Rightarrow>
                        UnmarshalPayloadWithRegistryStrict messageType payload registry strictMode
                    | None \<Rightarrow>
                        UnmarshalPayloadStrict globalRegistry messageType payload strictMode) of
                Inl e \<Rightarrow> Inl (e, Some msg)
              | Inr payloadObj \<Rightarrow> Inr (msg, payloadObj)))))))))"

subsection \<open>The layout of a marshalled message\<close>

text \<open>
  The layout that the comment on \<open>MarshalMessage\<close> documents and that the constants
  \<open>HeaderSize\<close> and \<open>SignatureLengthSize\<close> count:
  \<^verbatim>\<open>[Type(1)][ID(4)][PayloadLen(4)][Payload(N)][SignatureLen(4)][Signature(N)]\<close>,
  with the three integers as big-endian \<open>uint32\<close>.
\<close>

definition wire_format :: "byte \<Rightarrow> uint32 \<Rightarrow> byte list \<Rightarrow> byte list \<Rightarrow> byte list" where
  "wire_format t i payload signature =
     [t] @ PutUint32 i @ PutUint32 (of_nat (length payload)) @ payload
       @ PutUint32 (of_nat (length signature)) @ signature"

text \<open>
  The layout in the words of the specification (section 4.4), which asks for the id,
  the payload length and the signature length as varints. It is not taken from the
  code; it is here to be compared with what \<open>MarshalMessage\<close> produces.
\<close>

definition spec_varint_frame :: "byte \<Rightarrow> uint32 \<Rightarrow> byte list \<Rightarrow> byte list \<Rightarrow> byte list" where
  "spec_varint_frame t i payload signature =
     [t] @ WriteVarint [] (ucast i) @ WriteVarint [] (of_nat (length payload)) @ payload
       @ WriteVarint [] (of_nat (length signature)) @ signature"

section \<open>Protocol engine and streaming (message.go)\<close>

text \<open>
  The transport behind the \<open>Connection\<close> interface is outside the repository. It is
  the queue of bytes that reads will deliver, the bytes written so far, and the point at
  which writing starts to fail: \<open>write_failure = None\<close> is a transport whose writes all
  succeed, \<open>write_failure = Some (n, e)\<close> one that accepts \<open>n\<close> more writes and answers
  every later one with the error \<open>e\<close>. A write that succeeds appends its bytes, one that
  fails appends nothing; a read past the end of the queue fails as \<open>io.ReadFull\<close> does on
  a closed stream.
\<close>

record Connection =
  incoming :: "byte list"
  written :: "byte list"
  write_failure :: "(nat \<times> error) option"

definition conn_Write :: "Connection \<Rightarrow> byte list \<Rightarrow> error option \<times> Connection" where
  "conn_Write c b =
     (case write_failure c of
        None \<Rightarrow> (None, c\<lparr>written := written c @ b\<rparr>)
      | Some (n, e) \<Rightarrow>
          if n = 0 then (Some e, c)
          else (None, c\<lparr>written := written c @ b, write_failure := Some (n - 1, e)\<rparr>))"

definition conn_ReadFull :: "nat \<Rightarrow> Connection \<Rightarrow> (error + byte list) \<times> Connection" where
  "conn_ReadFull n c =
     (if n = 0 then (Inr [], c)
      else if incoming c = [] then (Inl EOF, c)
      else if length (incoming c) < n then (Inl ErrUnexpectedEOF, c\<lparr>incoming := []\<rparr>)
      else (Inr (take n (incoming c)), c\<lparr>incoming := drop n (incoming c)\<rparr>))"

record streamAssembler =
  header :: StreamHeader
  chunks :: "uint32 \<rightharpoonup> byte list"
  received :: uint32

record 'u Protocol =
  conn :: Connection
  opts :: "'u MessageOptions option"
  nextID :: uint32
  streamConfig :: StreamConfig
  activeStreams :: "uint32 \<rightharpoonup> streamAssembler"

definition NewProtocol :: "Connection \<Rightarrow> 'u MessageOptions option \<Rightarrow> 'u Protocol" where
  "NewProtocol c opt =
     \<lparr>conn = c, opts = opt, nextID = 1,
      streamConfig =
        (case (case opt of None \<Rightarrow> None | Some ob \<Rightarrow> StreamConfig ob) of
           Some cfg \<Rightarrow> cfg
         | None \<Rightarrow> DefaultStreamConfig),
      activeStreams = Map.empty\<rparr>"

text \<open>The sending functions return the error (\<open>None\<close> is nil) and the protocol
  object with what has been written to the transport so far.\<close>

definition sendDirect ::
  "('u \<Rightarrow> error + byte list) \<Rightarrow> 'u Protocol \<Rightarrow> byte \<Rightarrow> uint32 \<Rightarrow> 'u payload
     \<Rightarrow> error option \<times> 'u Protocol" where
  "sendDirect um p messageType messageID payload =
     (case MarshalMessage um messageType messageID payload (opts p) of
        Inl e \<Rightarrow> (Some e, p)
      | Inr data \<Rightarrow>
          let lenBuf = PutUint32 (of_nat (length data))
          in (case conn_Write (conn p) lenBuf of
                (Some e, c) \<Rightarrow> (Some e, p\<lparr>conn := c\<rparr>)
              | (None, c) \<Rightarrow>
                  (case conn_Write c data of
                     (err, c) \<Rightarrow> (err, p\<lparr>conn := c\<rparr>))))"

text \<open>The loop over the chunks. A slice expression \<open>payloadBytes[start:end]\<close> outside
  \<open>0 \<le> start \<le> end \<le> len\<close> panics.\<close>

function sendStreamed_loop ::
  "('u \<Rightarrow> error + byte list) \<Rightarrow> 'u Protocol \<Rightarrow> uint32 \<Rightarrow> byte list \<Rightarrow> int \<Rightarrow> uint32 \<Rightarrow> uint32
     \<Rightarrow> error option \<times> 'u Protocol" where
  "sendStreamed_loop um p messageID payloadBytes chunkSize totalChunks i =
     (if i < totalChunks then
        let start = wrap64 (uint i * chunkSize);
            end0 = wrap64 (start + chunkSize);
            end1 = (if end0 > int (length payloadBytes) then int (length payloadBytes) else end0)
        in if \<not> (0 \<le> start \<and> start \<le> end1 \<and> end1 \<le> int (length payloadBytes))
           then (Some Panic, p)
           else
             let chunk = \<lparr>ChunkIndex = i,
                          Data = take (nat (end1 - start)) (drop (nat start) payloadBytes)\<rparr>
             in (case sendDirect um p MessageTypeStreamChunk messageID (PStreamChunk chunk) of
                   (Some e, p') \<Rightarrow> (Some e, p')
                 | (None, p') \<Rightarrow>
                     sendStreamed_loop um p' messageID payloadBytes chunkSize totalChunks (i + 1))
      else (None, p))"
  by pat_completeness auto
termination
proof (relation "measure (\<lambda>(um, p, messageID, payloadBytes, chunkSize, totalChunks, i).
                            unat totalChunks - unat i)")
  show "wf (measure (\<lambda>(um, p, messageID, payloadBytes, chunkSize, totalChunks, i).
                        unat totalChunks - unat i))"
    by simp
next
  fix um :: "'u \<Rightarrow> error + byte list" and p p' :: "'u Protocol" and messageID :: uint32
    and payloadBytes :: "byte list" and chunkSize :: int and totalChunks i :: uint32
  assume "i < totalChunks"
  then have "unat i < unat totalChunks" by (simp add: word_less_nat_alt)
  moreover have "unat totalChunks < 2 ^ 32"
    using unsigned_less [of totalChunks, where ?'a = nat] by simp
  ultimately have "unat i + unat (1 :: uint32) < 2 ^ LENGTH(32)" by simp
  then have "unat (i + 1) = unat i + unat (1 :: uint32)"
    by (simp only: unat_add_lem)
  with \<open>unat i < unat totalChunks\<close>
  show "((um, p', messageID, payloadBytes, chunkSize, totalChunks, i + 1),
                    (um, p, messageID, payloadBytes, chunkSize, totalChunks, i))
                   \<in> measure (\<lambda>(um, p, messageID, payloadBytes, chunkSize, totalChunks, i).
                                 unat totalChunks - unat i)"
    by simp
qed

declare sendStreamed_loop.simps [simp del]

text \<open>An integer division by zero panics.\<close>

definition sendStreamed ::
  "('u \<Rightarrow> error + byte list) \<Rightarrow> 'u Protocol \<Rightarrow> byte \<Rightarrow> uint32 \<Rightarrow> byte list
     \<Rightarrow> error option \<times> 'u Protocol" where
  "sendStreamed um p messageType messageID payloadBytes =
     (let chunkSize = ChunkSize (streamConfig p);
          totalSize = (of_nat (length payloadBytes) :: uint64)
      in if chunkSize = 0 then (Some Panic, p)
         else
           let totalChunks =
                 (word_of_int
                    (go_div (wrap64 (wrap64 (int (length payloadBytes) + chunkSize) - 1)) chunkSize)
                  :: uint32);
               hdr = \<lparr>OriginalType = messageType, TotalSize = totalSize,
                      TotalChunks = totalChunks\<rparr>
           in (case sendDirect um p MessageTypeStreamStart messageID (PStreamHeader hdr) of
                 (Some e, p1) \<Rightarrow> (Some e, p1)
               | (None, p1) \<Rightarrow>
                   (case sendStreamed_loop um p1 messageID payloadBytes chunkSize totalChunks 0 of
                      (Some e, p2) \<Rightarrow> (Some e, p2)
                    | (None, p2) \<Rightarrow> sendDirect um p2 MessageTypeStreamEnd messageID (PBytes []))))"

definition SendMessage ::
  "('u \<Rightarrow> error + byte list) \<Rightarrow> 'u Protocol \<Rightarrow> byte \<Rightarrow> uint32 \<Rightarrow> 'u payload
     \<Rightarrow> error option \<times> 'u Protocol" where
  "SendMessage um p messageType messageID payload =
     (case MarshalPayload um payload of
        Inl e \<Rightarrow> (Some e, p)
      | Inr payloadBytes \<Rightarrow>
          if Enabled (streamConfig p) \<and> int (length payloadBytes) \<ge> Threshold (streamConfig p)
          then sendStreamed um p messageType messageID payloadBytes
          else sendDirect um p messageType messageID payload)"

subsection \<open>Receiving and reassembly\<close>

definition receiveRaw ::
  "'u PayloadRegistry \<Rightarrow> 'u Protocol
     \<Rightarrow> ((error \<times> Message option) + (Message \<times> 'u payload)) \<times> 'u Protocol" where
  "receiveRaw globalRegistry p =
     (case conn_ReadFull 4 (conn p) of
        (Inl e, c1) \<Rightarrow> (Inl (e, None), p\<lparr>conn := c1\<rparr>)
      | (Inr lenBuf, c1) \<Rightarrow>
          let msgLen = Uint32 lenBuf
          in if unat msgLen > MaxPayloadSize + HeaderSize + SignatureLengthSize + 1024
             then (Inl (ErrPayloadTooLarge, None), p\<lparr>conn := c1\<rparr>)
             else (case conn_ReadFull (unat msgLen) c1 of
                     (Inl e, c2) \<Rightarrow> (Inl (e, None), p\<lparr>conn := c2\<rparr>)
                   | (Inr data, c2) \<Rightarrow>
                       (UnmarshalMessage globalRegistry data (opts p), p\<lparr>conn := c2\<rparr>)))"

definition startStream :: "'u Protocol \<Rightarrow> uint32 \<Rightarrow> StreamHeader \<Rightarrow> 'u Protocol" where
  "startStream p msgID hdr =
     p\<lparr>activeStreams := (activeStreams p)
         (msgID \<mapsto> \<lparr>header = hdr, chunks = Map.empty, received = 0\<rparr>)\<rparr>"

text \<open>The loop of \<open>assembleStream\<close>: reading a missing key of the chunk map gives the
  nil slice, and appending it adds nothing.\<close>

function assembleStream_loop :: "streamAssembler \<Rightarrow> uint32 \<Rightarrow> byte list \<Rightarrow> byte list" where
  "assembleStream_loop assembler i result =
     (if i < TotalChunks (header assembler) then
        assembleStream_loop assembler (i + 1)
          (result @ (case chunks assembler i of None \<Rightarrow> [] | Some d \<Rightarrow> d))
      else result)"
  by pat_completeness auto
termination
proof (relation "measure (\<lambda>(assembler, i, result). unat (TotalChunks (header assembler)) - unat i)")
  show "wf (measure (\<lambda>(assembler, i, result). unat (TotalChunks (header assembler)) - unat i))"
    by simp
next
  fix assembler :: streamAssembler and i :: uint32 and result :: "byte list"
  assume "i < TotalChunks (header assembler)"
  then have "unat i < unat (TotalChunks (header assembler))" by (simp add: word_less_nat_alt)
  moreover have "unat (TotalChunks (header assembler)) < 2 ^ 32"
    using unsigned_less [of "TotalChunks (header assembler)", where ?'a = nat] by simp
  ultimately have "unat i + unat (1 :: uint32) < 2 ^ LENGTH(32)" by simp
  then have "unat (i + 1) = unat i + unat (1 :: uint32)"
    by (simp only: unat_add_lem)
  with \<open>unat i < unat (TotalChunks (header assembler))\<close> show
    "((assembler, i + 1, result @ (case chunks assembler i of None \<Rightarrow> [] | Some d \<Rightarrow> d)),
      (assembler, i, result))
     \<in> measure (\<lambda>(assembler, i, result). unat (TotalChunks (header assembler)) - unat i)"
    by simp
qed

declare assembleStream_loop.simps [simp del]

text \<open>
  \<open>assembleStream\<close> starts with \<open>make([]byte, 0, assembler.header.TotalSize)\<close>. The Go
  runtime refuses a capacity above its allocation limit \<open>maxAlloc\<close> with the panic
  \<open>makeslice: cap out of range\<close>; on the 64-bit platforms, whose \<open>int\<close> is the one of
  \<open>wrap64\<close>, the limit is \<open>2 ^ 48\<close> bytes. The total size is the one announced in the
  stream header, so it comes from the wire. An allocation within the limit is taken to
  succeed.
\<close>

definition maxAlloc :: nat where
  "maxAlloc = 2 ^ 48"

definition assembleStream :: "streamAssembler \<Rightarrow> error + byte list" where
  "assembleStream assembler =
     (if unat (TotalSize (header assembler)) > maxAlloc then Inl Panic
      else Inr (assembleStream_loop assembler 0 []))"

text \<open>A panic inside \<open>addChunk\<close> leaves the chunk stored and the counter incremented:
  both happen before \<open>assembleStream\<close> is called.\<close>

definition addChunk ::
  "'u Protocol \<Rightarrow> uint32 \<Rightarrow> StreamChunk \<Rightarrow> (error + bool \<times> byte list) \<times> 'u Protocol" where
  "addChunk p msgID chunk =
     (case activeStreams p msgID of
        None \<Rightarrow> (Inr (False, []), p)
      | Some assembler \<Rightarrow>
          let assembler = assembler\<lparr>chunks := (chunks assembler)(ChunkIndex chunk \<mapsto> Data chunk)\<rparr>;
              assembler = assembler\<lparr>received := received assembler + 1\<rparr>;
              p = p\<lparr>activeStreams := (activeStreams p)(msgID \<mapsto> assembler)\<rparr>
          in if received assembler = TotalChunks (header assembler)
             then (case assembleStream assembler of
                     Inl e \<Rightarrow> (Inl e, p)
                   | Inr result \<Rightarrow> (Inr (True, result), p))
             else (Inr (False, []), p))"

text \<open>
  \<open>ReceiveMessage\<close> loops until a frame ends it. Each turn consumes a frame of at
  least four bytes from the transport or returns the read error, so on the finite
  queue of the model the loop ends. A failed type assertion, and a field read through
  a nil pointer, panic; a panic of \<open>assembleStream\<close> ends the call.
\<close>

function ReceiveMessage ::
  "'u PayloadRegistry \<Rightarrow> 'u Protocol \<Rightarrow> (error + (Message \<times> 'u payload)) \<times> 'u Protocol" where
  "ReceiveMessage globalRegistry p =
     (case receiveRaw globalRegistry p of
        (Inl (e, m), p1) \<Rightarrow> (Inl e, p1)
      | (Inr (msg, payload), p1) \<Rightarrow>
          if Type msg = MessageTypeStreamStart then
            (case payload of
               PStreamHeader hdr \<Rightarrow>
                 ReceiveMessage globalRegistry (startStream p1 (ID msg) hdr)
             | _ \<Rightarrow> (Inl Panic, p1))
          else if Type msg = MessageTypeStreamChunk then
            (case payload of
               PStreamChunk chunk \<Rightarrow>
                 (case addChunk p1 (ID msg) chunk of
                    (Inl e, p2) \<Rightarrow> (Inl e, p2)
                  | (Inr (complete, assembledPayload), p2) \<Rightarrow>
                      if complete then
                        (case activeStreams p2 (ID msg) of
                           None \<Rightarrow> (Inl Panic, p2)
                         | Some assembler \<Rightarrow>
                             let originalType = OriginalType (header assembler);
                                 p3 = p2\<lparr>activeStreams := (activeStreams p2)(ID msg := None)\<rparr>
                             in (case UnmarshalPayload globalRegistry originalType assembledPayload of
                                   Inl e \<Rightarrow> (Inl e, p3)
                                 | Inr payloadObj \<Rightarrow>
                                     (Inr (\<lparr>Type = originalType, ID = ID msg,
                                            Payload = assembledPayload, Signature = []\<rparr>,
                                           payloadObj), p3)))
                      else ReceiveMessage globalRegistry p2)
             | _ \<Rightarrow> (Inl Panic, p1))
          else if Type msg = MessageTypeStreamEnd then
            (case activeStreams p1 (ID msg) of
               Some assembler \<Rightarrow>
                 if received assembler = TotalChunks (header assembler) then
                   let originalType = OriginalType (header assembler)
                   in (case assembleStream assembler of
                         Inl e \<Rightarrow> (Inl e, p1)
                       | Inr assembledPayload \<Rightarrow>
                           let p2 = p1\<lparr>activeStreams := (activeStreams p1)(ID msg := None)\<rparr>
                           in (case UnmarshalPayload globalRegistry originalType assembledPayload of
                                 Inl e \<Rightarrow> (Inl e, p2)
                               | Inr payloadObj \<Rightarrow>
                                   (Inr (\<lparr>Type = originalType, ID = ID msg,
                                          Payload = assembledPayload, Signature = []\<rparr>,
                                         payloadObj), p2)))
                 else ReceiveMessage globalRegistry p1
             | None \<Rightarrow> ReceiveMessage globalRegistry p1)
          else (Inr (msg, payload), p1))"
  by pat_completeness auto
termination
proof (relation "measure (\<lambda>(globalRegistry, p). length (incoming (conn p)))")
  have read_le: "length (incoming c') \<le> length (incoming c)"
    if "conn_ReadFull n c = (r, c')" for n c r c'
    using that by (auto simp: conn_ReadFull_def split: if_splits)
  have read_less: "length (incoming c') < length (incoming c)"
    if "conn_ReadFull n c = (Inr b, c')" and "0 < n" for n c b c'
    using that by (auto simp: conn_ReadFull_def split: if_splits)
  have raw_less: "length (incoming (conn p1)) < length (incoming (conn p))"
    if raw: "(Inr x, p1) = receiveRaw g p"
    for g :: "'u PayloadRegistry" and p p1 :: "'u Protocol" and x
  proof -
    obtain r1 c1 where r1: "conn_ReadFull 4 (conn p) = (r1, c1)"
      by (cases "conn_ReadFull 4 (conn p)")
    show ?thesis
    proof (cases r1)
      case (Inl e)
      with raw r1 show ?thesis by (simp add: receiveRaw_def)
    next
      case (Inr lenBuf)
      with r1 have l1: "length (incoming c1) < length (incoming (conn p))"
        using read_less by fastforce
      obtain r2 c2 where r2: "conn_ReadFull (unat (Uint32 lenBuf)) c1 = (r2, c2)"
        by (cases "conn_ReadFull (unat (Uint32 lenBuf)) c1")
      then have l2: "length (incoming c2) \<le> length (incoming c1)"
        by (rule read_le)
      from raw r1 Inr r2 have "conn p1 = c2"
        by (auto simp: receiveRaw_def Let_def split: if_splits sum.splits)
      with l1 l2 show ?thesis by simp
    qed
  qed
  have add_conn: "conn p' = conn p"
    if "(r, p') = addChunk p i c" for p p' :: "'u Protocol" and r i c
    using that by (auto simp: addChunk_def Let_def split: option.splits if_splits sum.splits)
  show "wf (measure (\<lambda>(globalRegistry, p :: 'u Protocol). length (incoming (conn p))))"
    by simp
  {
    fix g :: "'u PayloadRegistry" and p p1 :: "'u Protocol" and x b msg payload hdr
    assume "(x, p1) = receiveRaw g p" and "x = Inr b" and "(msg, payload) = b"
    then show "((g, startStream p1 (ID msg) hdr), (g, p))
                 \<in> measure (\<lambda>(globalRegistry, p). length (incoming (conn p)))"
      using raw_less [of b p1 g p] by (simp add: startStream_def)
  next
    fix g :: "'u PayloadRegistry" and p p1 p2 :: "'u Protocol" and x b msg payload chunk r
    assume "(x, p1) = receiveRaw g p" and "x = Inr b" and "(msg, payload) = b"
      and "(r, p2) = addChunk p1 (ID msg) chunk"
    then show "((g, p2), (g, p)) \<in> measure (\<lambda>(globalRegistry, p). length (incoming (conn p)))"
      using raw_less [of b p1 g p] add_conn [of r p2 p1 "ID msg" chunk] by simp
  next
    fix g :: "'u PayloadRegistry" and p p1 :: "'u Protocol" and x b
    assume "(x, p1) = receiveRaw g p" and "x = Inr b"
    then show "((g, p1), (g, p)) \<in> measure (\<lambda>(globalRegistry, p). length (incoming (conn p)))"
      using raw_less [of b p1 g p] by simp
  next
    fix g :: "'u PayloadRegistry" and p p1 :: "'u Protocol" and x b
    assume "(x, p1) = receiveRaw g p" and "x = Inr b"
    then show "((g, p1), (g, p)) \<in> measure (\<lambda>(globalRegistry, p). length (incoming (conn p)))"
      using raw_less [of b p1 g p] by simp
  }
qed

declare ReceiveMessage.simps [simp del]

subsection \<open>What a streamed send puts on the wire\<close>

text \<open>
  The \<open>i\<close>-th chunk in the words of the specification (section 4.5):
  \<open>StreamChunk{index = i, data = payload[i * chunk .. min((i + 1) * chunk, payload_len)]}\<close>.
  It is not taken from the code; it is here to be compared with what \<open>sendStreamed\<close>
  sends.
\<close>

definition spec_chunk :: "byte list \<Rightarrow> nat \<Rightarrow> nat \<Rightarrow> StreamChunk" where
  "spec_chunk payload chunk_size i =
     \<lparr>ChunkIndex = of_nat i,
      Data = take (min ((i + 1) * chunk_size) (length payload) - i * chunk_size)
               (drop (i * chunk_size) payload)\<rparr>"

text \<open>
  The bytes that \<open>sendDirect\<close> writes for a message whose payload serializes to
  \<open>payload\<close> and whose signature is \<open>signature\<close> (empty when no signer is configured):
  the four-byte length prefix and the marshalled message.
\<close>

definition frame_bytes :: "byte \<Rightarrow> uint32 \<Rightarrow> byte list \<Rightarrow> byte list \<Rightarrow> byte list" where
  "frame_bytes t i payload signature =
     PutUint32 (of_nat (length (wire_format t i payload signature)))
       @ wire_format t i payload signature"

text \<open>
  The checks that a frame has to pass on the receiving side before its payload is
  decoded, collected from \<open>receiveRaw\<close> and \<open>UnmarshalMessage\<close>: the payload is at most
  \<open>MaxPayloadSize\<close>, the whole message is at most
  \<open>MaxPayloadSize + HeaderSize + SignatureLengthSize + 1024\<close>, and a configured verifier
  finds a signature and accepts it over the header and the payload.
\<close>

definition frame_accepted ::
  "'u MessageOptions \<Rightarrow> byte \<Rightarrow> uint32 \<Rightarrow> byte list \<Rightarrow> byte list \<Rightarrow> bool" where
  "frame_accepted opt t i payload signature \<longleftrightarrow>
     length payload \<le> MaxPayloadSize \<and>
     length (wire_format t i payload signature)
       \<le> MaxPayloadSize + HeaderSize + SignatureLengthSize + 1024 \<and>
     (case Verifier opt of
        None \<Rightarrow> True
      | Some verify \<Rightarrow>
          signature \<noteq> [] \<and>
          verify ([t] @ PutUint32 i @ PutUint32 (of_nat (length payload)) @ payload) signature
            = None)"

section \<open>The varint codec\<close>

lemma drop_bit7_less: "(0x80::uint64) \<le> v \<Longrightarrow> unat (drop_bit 7 v) < unat v"
proof -
  assume "0x80 \<le> v"
  then have "0 < unat v" by (simp add: word_le_nat_alt)
  then have "unat v div 2 ^ 7 < unat v" by simp
  then show ?thesis by (simp add: unat_drop_bit_eq drop_bit_eq_div unat_div)
qed

lemma WriteVarint_append: "WriteVarint buf v = buf @ WriteVarint [] v"
proof (induction v arbitrary: buf rule: measure_induct_rule[of unat])
  case (less v)
  show ?case
  proof (cases "v \<ge> 0x80")
    case True
    have a: "WriteVarint buf v = WriteVarint (buf @ [ucast v OR 0x80]) (drop_bit 7 v)" for buf
      using True by (subst WriteVarint.simps) simp
    have c: "WriteVarint b (drop_bit 7 v) = b @ WriteVarint [] (drop_bit 7 v)" for b
      using less[OF drop_bit7_less[OF True]] .
    show ?thesis by (simp add: a c[of "buf @ _"] c[of "[_]"])
  next
    case False
    then show ?thesis by (subst WriteVarint.simps, subst (2) WriteVarint.simps) simp
  qed
qed

lemma WriteVarint_small: "v < 0x80 \<Longrightarrow> WriteVarint buf v = buf @ [ucast v]"
  by (subst WriteVarint.simps) auto

lemma WriteVarint_big:
  "0x80 \<le> v \<Longrightarrow> WriteVarint buf v = buf @ (ucast v OR 0x80) # WriteVarint [] (drop_bit 7 v)"
  by (subst WriteVarint.simps, subst WriteVarint_append) simp

lemma low7: "(ucast ((ucast (v::uint64) :: byte) AND 0x7F) :: uint64) = v AND 0x7F"
proof -
  have a: "(0x7F::byte) = mask 7" and b: "(0x7F::uint64) = mask 7"
    by (simp_all add: mask_eq_exp_minus_1)
  show ?thesis unfolding a b by (rule bit_word_eqI) (auto simp: bit_simps)
qed

lemma low7_cont: "(((ucast (v::uint64) :: byte) OR 0x80) AND 0x7F) = ucast v AND 0x7F"
  by (simp add: bit.conj_disj_distrib2)

lemma cont_bit_set: "((ucast (v::uint64) :: byte) OR 0x80) AND 0x80 \<noteq> 0"
  by (simp add: bit.conj_disj_distrib2 or_eq_0_iff)

lemma cont_bit_clear: "(v::uint64) < 0x80 \<Longrightarrow> (ucast v :: byte) AND 0x80 = 0"
proof -
  assume "v < 0x80"
  then have "v AND mask 7 = v" by (simp add: less_mask_eq)
  then have "(ucast v :: byte) = ucast (v AND mask 7)" by simp
  also have "\<dots> = ucast v AND 0x7F" by (simp add: unsigned_and_eq mask_eq_exp_minus_1)
  finally have "(ucast v :: byte) AND 0x80 = (ucast v AND 0x7F) AND 0x80" by simp
  then show ?thesis by (simp add: and.assoc)
qed

lemma small_low7: "(v::uint64) < 0x80 \<Longrightarrow> v AND 0x7F = v"
proof -
  assume a: "v < 0x80"
  have m: "(0x7F::uint64) = mask 7" by (simp add: mask_eq_exp_minus_1)
  from a show ?thesis unfolding m by (simp add: less_mask_eq)
qed

lemma recombine:
  "push_bit shift ((v::uint64) AND 0x7F) OR push_bit (shift + 7) (drop_bit 7 v) = push_bit shift v"
proof -
  have m: "(0x7F::uint64) = mask 7" by (simp add: mask_eq_exp_minus_1)
  show ?thesis unfolding m
  proof (rule bit_word_eqI)
    fix n assume "n < LENGTH(64)"
    have "7 + (n - (shift + 7)) = n - shift" if "shift + 7 \<le> n" using that by simp
    then show "bit (push_bit shift (v AND mask 7) OR push_bit (shift + 7) (drop_bit 7 v)) n
                 = bit (push_bit shift v) n"
      by (cases "shift + 7 \<le> n") (auto simp: bit_simps)
  qed
qed

lemma ReadVarint_loop_WriteVarint:
  "shift \<le> 63 \<Longrightarrow> unat v < 2 ^ (64 - shift) \<Longrightarrow>
   ReadVarint_loop result shift (WriteVarint [] v @ rest) = Inr (result OR push_bit shift v, rest)"
proof (induction v arbitrary: result shift rule: measure_induct_rule[of unat])
  case (less v)
  show ?case
  proof (cases "v \<ge> 0x80")
    case False
    then have s: "v < 0x80" by simp
    show ?thesis using less.prems
      by (simp add: WriteVarint_small[OF s] cont_bit_clear[OF s] low7 small_low7[OF s])
  next
    case True
    have "2 ^ 7 \<le> unat v" using True by (simp add: word_le_nat_alt)
    with less.prems have "(2::nat) ^ 7 < 2 ^ (64 - shift)" by linarith
    then have sh: "7 < 64 - shift" by (simp only: power_strict_increasing_iff)
    then have sh': "shift + 7 \<le> 63" by simp
    have "unat (drop_bit 7 v) = unat v div 2 ^ 7"
      by (simp add: unat_drop_bit_eq drop_bit_eq_div unat_div)
    moreover have "(2::nat) ^ (64 - shift) = 2 ^ 7 * 2 ^ (64 - (shift + 7))"
    proof -
      have "64 - shift = 7 + (64 - (shift + 7))" using sh by simp
      then show ?thesis by (simp only: power_add)
    qed
    ultimately have b: "unat (drop_bit 7 v) < 2 ^ (64 - (shift + 7))"
      using less.prems(2) by (simp add: less_mult_imp_div_less mult.commute)
    note IH = less.IH[OF drop_bit7_less[OF True] sh' b]
    have "ReadVarint_loop result shift (WriteVarint [] v @ rest)
            = ReadVarint_loop (result OR push_bit shift (v AND 0x7F)) (shift + 7)
                (WriteVarint [] (drop_bit 7 v) @ rest)"
      using less.prems(1)
      by (simp add: WriteVarint_big[OF True] cont_bit_set low7_cont low7 Let_def del: push_bit_and)
    also have "\<dots> = Inr ((result OR push_bit shift (v AND 0x7F))
                          OR push_bit (shift + 7) (drop_bit 7 v), rest)"
      by (rule IH)
    also have "\<dots> = Inr (result OR push_bit shift v, rest)"
      by (simp only: or.assoc recombine)
    finally show ?thesis .
  qed
qed

lemma ReadVarint_WriteVarint: "ReadVarint (WriteVarint [] v @ rest) = Inr (v, rest)"
proof -
  have "unat v < 2 ^ 64" using unsigned_less[of v, where ?'a = nat] by simp
  then show ?thesis
    unfolding ReadVarint_def using ReadVarint_loop_WriteVarint[of 0 v 0 rest] by simp
qed

lemma ReadVarint_loop_overflow:
  "\<forall>c \<in> set bs. c AND 0x80 \<noteq> 0 \<Longrightarrow> shift + 7 * length bs \<ge> 64 \<Longrightarrow>
   ReadVarint_loop result shift (bs @ b # rest) = Inl ErrVarintOverflow"
proof (induction bs arbitrary: result shift)
  case Nil
  then show ?case by simp
next
  case (Cons a bs)
  then show ?case by (simp add: Let_def)
qed

text \<open>Ten bytes with the continuation bit set and nothing after them: the read of the
  eleventh byte fails first, with \<open>io.EOF\<close>.\<close>

lemma ReadVarint_ten_continuation_bytes:
  "ReadVarint [0x80, 0x80, 0x80, 0x80, 0x80, 0x80, 0x80, 0x80, 0x80, 0x80] = Inl EOF"
  by (simp add: ReadVarint_def Let_def)

text \<open>
  Claim C9. For every \<open>uint64\<close> value \<open>v\<close>, \<open>ReadVarint\<close> applied to the bytes that
  \<open>WriteVarint\<close> produced for \<open>v\<close> (followed by any other bytes \<open>rest\<close>) returns exactly
  \<open>v\<close> and leaves \<open>rest\<close> unread. An encoding longer than ten bytes, that is ten or more
  bytes with the continuation bit set and at least one byte after them, makes
  \<open>ReadVarint\<close> fail with \<open>ErrVarintOverflow\<close>: the shift counter has then passed 63.
\<close>

theorem C9_varint_codec:
  "ReadVarint (WriteVarint [] v @ rest) = Inr (v, rest) \<and>
   ((\<forall>c \<in> set bs. c AND 0x80 \<noteq> 0) \<and> 10 \<le> length bs
      \<longrightarrow> ReadVarint (bs @ b # rest) = Inl ErrVarintOverflow)"
proof (intro conjI impI)
  show "ReadVarint (WriteVarint [] v @ rest) = Inr (v, rest)"
    by (rule ReadVarint_WriteVarint)
next
  assume a: "(\<forall>c \<in> set bs. c AND 0x80 \<noteq> 0) \<and> 10 \<le> length bs"
  then have "0 + 7 * length bs \<ge> 64" by simp
  with a show "ReadVarint (bs @ b # rest) = Inl ErrVarintOverflow"
    unfolding ReadVarint_def by (intro ReadVarint_loop_overflow) auto
qed

theorem C9_varint_codec_witness:
  "ReadVarint (WriteVarint [] 300 @ [1, 2]) = Inr (300, [1, 2]) \<and>
   ReadVarint (replicate 10 0x80 @ 0x01 # [1, 2]) = Inl ErrVarintOverflow"
  using C9_varint_codec [of 300 "[1, 2]" "replicate 10 0x80" "0x01"] by simp

section \<open>The payload registry\<close>

text \<open>
  Claim C7. For every type \<open>t \<ge> 250\<close> and every factory \<open>f\<close> (nil included),
  \<open>Register\<close> and \<open>Unregister\<close> return the registry as it was, so its handler map is
  unchanged. On a registry fresh from \<open>NewPayloadRegistry\<close>, \<open>Has\<close> is true of 250 and
  of 251, \<open>Get\<close> returns the built-in \<open>StreamHeader\<close> factory for 250 and the built-in
  \<open>StreamChunk\<close> factory for 251, and it still does so for 250 after \<open>Register 250 f\<close>.
\<close>

theorem C7_reserved_types:
  "(250 \<le> t \<longrightarrow>
      Register r t f = r \<and> handlers (Register r t f) = handlers r \<and>
      Unregister r t = r \<and> handlers (Unregister r t) = handlers r) \<and>
   Has NewPayloadRegistry 250 \<and> Has NewPayloadRegistry 251 \<and>
   Get NewPayloadRegistry 250 = Some StreamHeaderFactory \<and>
   Get NewPayloadRegistry 251 = Some StreamChunkFactory \<and>
   Get (Register NewPayloadRegistry 250 f) 250 = Some StreamHeaderFactory"
  by (simp add: Register_def Unregister_def IsReservedType_def Has_def Get_def
      NewPayloadRegistry_def registerStreamingTypes_def MessageTypeStreamStart_def
      MessageTypeStreamChunk_def)

theorem C7_reserved_types_witness:
  "Register (NewPayloadRegistry :: unit PayloadRegistry) 252 (Some (UserFactory (\<lambda>d. Inr ())))
     = NewPayloadRegistry \<and>
   Unregister (NewPayloadRegistry :: unit PayloadRegistry) 252 = NewPayloadRegistry \<and>
   Has (NewPayloadRegistry :: unit PayloadRegistry) 250"
proof -
  have h: "(250::byte) \<le> 252" by simp
  from h C7_reserved_types [of 252 "NewPayloadRegistry :: unit PayloadRegistry"
                              "Some (UserFactory (\<lambda>d. Inr ()))"]
  show ?thesis by blast
qed

lemma Get_New_200: "Get (NewPayloadRegistry :: 'u PayloadRegistry) 200 = None"
  by (simp add: Get_def NewPayloadRegistry_def registerStreamingTypes_def
      MessageTypeStreamStart_def MessageTypeStreamChunk_def)

lemma Get_New_250: "Get (NewPayloadRegistry :: 'u PayloadRegistry) 250 = Some StreamHeaderFactory"
  by (simp add: Get_def NewPayloadRegistry_def registerStreamingTypes_def
      MessageTypeStreamStart_def MessageTypeStreamChunk_def)

lemma Get_New_251: "Get (NewPayloadRegistry :: 'u PayloadRegistry) 251 = Some StreamChunkFactory"
  by (simp add: Get_def NewPayloadRegistry_def registerStreamingTypes_def
      MessageTypeStreamStart_def MessageTypeStreamChunk_def)

lemma Get_New_252: "Get (NewPayloadRegistry :: 'u PayloadRegistry) 252 = None"
  by (simp add: Get_def NewPayloadRegistry_def registerStreamingTypes_def
      MessageTypeStreamStart_def MessageTypeStreamChunk_def)

section \<open>Strict mode\<close>

text \<open>
  Claim C6. A type has no registered factory when \<open>Get\<close> returns nil for it. For such
  a type and any payload bytes \<open>p\<close>, non-strict decoding returns the raw bytes \<open>p\<close>
  unchanged and strict decoding fails with \<open>ErrUnknownMessageType\<close>; for a type whose
  \<open>Get\<close> is not nil, strict and non-strict decoding give the same result. This holds
  for the decoding through a given registry and for the decoding through the global
  registry (here \<open>r\<close> as well).
\<close>

theorem C6_strict_mode:
  "(Get r t = None \<longrightarrow>
      UnmarshalPayloadWithRegistryStrict t p r False = Inr (PBytes p) \<and>
      UnmarshalPayloadWithRegistryStrict t p r True = Inl ErrUnknownMessageType \<and>
      UnmarshalPayloadStrict r t p False = Inr (PBytes p) \<and>
      UnmarshalPayloadStrict r t p True = Inl ErrUnknownMessageType) \<and>
   (Get r t \<noteq> None \<longrightarrow>
      UnmarshalPayloadWithRegistryStrict t p r True = UnmarshalPayloadWithRegistryStrict t p r False \<and>
      UnmarshalPayloadStrict r t p True = UnmarshalPayloadStrict r t p False)"
  by (auto simp: UnmarshalPayloadWithRegistryStrict_def UnmarshalPayloadStrict_def)

theorem C6_strict_mode_witness:
  "UnmarshalPayloadStrict (NewPayloadRegistry :: unit PayloadRegistry) 200 [0xDE, 0xAD, 0xBE, 0xEF] False
     = Inr (PBytes [0xDE, 0xAD, 0xBE, 0xEF]) \<and>
   UnmarshalPayloadStrict (NewPayloadRegistry :: unit PayloadRegistry) 200 [0xDE, 0xAD, 0xBE, 0xEF] True
     = Inl ErrUnknownMessageType \<and>
   UnmarshalPayloadStrict (NewPayloadRegistry :: unit PayloadRegistry) 250 [1, 2, 3] True
     = UnmarshalPayloadStrict NewPayloadRegistry 250 [1, 2, 3] False"
  using C6_strict_mode [of "NewPayloadRegistry :: unit PayloadRegistry" 200 "[0xDE, 0xAD, 0xBE, 0xEF]"]
        C6_strict_mode [of "NewPayloadRegistry :: unit PayloadRegistry" 250 "[1, 2, 3]"]
  by (simp add: Get_New_200 Get_New_250)

section \<open>The message codec\<close>

lemma length_PutUint32 [simp]: "length (PutUint32 v) = 4"
  by (simp add: PutUint32_def)

lemma Uint32_PutUint32 [simp]: "Uint32 (PutUint32 v) = v"
proof (rule bit_word_eqI)
  fix n assume "n < LENGTH(32)"
  then consider "n < 8" | "8 \<le> n" "n < 16" | "16 \<le> n" "n < 24" | "24 \<le> n" "n < 32"
    by fastforce
  then show "bit (Uint32 (PutUint32 v)) n = bit v n"
    by cases (auto simp: Uint32_def PutUint32_def bit_simps)
qed

lemma ReadFull_append [simp]: "ReadFull (length xs) (xs @ rest) = Inr (xs, rest)"
  by (auto simp: ReadFull_def)

lemma binary_Read_uint32_PutUint32 [simp]:
  "binary_Read_uint32 (PutUint32 v @ rest) = Inr (v, rest)"
  using ReadFull_append [of "PutUint32 v" rest] by (simp add: binary_Read_uint32_def)

lemma unat_of_nat32: "n < 4294967296 \<Longrightarrow> unat (of_nat n :: uint32) = n"
  by (simp add: unat_of_nat)

lemma of_nat32_eq_0: "n < 4294967296 \<Longrightarrow> (of_nat n :: uint32) = 0 \<longleftrightarrow> n = 0"
proof
  assume a: "n < 4294967296" and b: "(of_nat n :: uint32) = 0"
  have "n = unat (of_nat n :: uint32)" using a by (simp add: unat_of_nat32)
  also have "\<dots> = unat (0 :: uint32)" by (simp only: b)
  finally show "n = 0" by simp
qed simp

lemma MaxPayloadSize_lt: "n \<le> MaxPayloadSize \<Longrightarrow> n < 4294967296"
  by (simp add: MaxPayloadSize_def)

lemma UnmarshalMessage_wire:
  assumes pl: "length pl \<le> MaxPayloadSize" and sg: "length sg < 4294967296"
  shows "UnmarshalMessage g (wire_format t i pl sg @ extra) mo =
     (case (case (case mo of None \<Rightarrow> None | Some opt \<Rightarrow> Verifier opt) of
              None \<Rightarrow> None
            | Some verify \<Rightarrow>
                if sg = [] then Some ErrSignatureRequired
                else (case verify ([t] @ PutUint32 i @ PutUint32 (of_nat (length pl)) @ pl) sg of
                        Some e \<Rightarrow> Some ErrInvalidSignature
                      | None \<Rightarrow> None)) of
        Some e \<Rightarrow> Inl (e, None)
      | None \<Rightarrow>
          (case (case (case mo of None \<Rightarrow> None | Some opt \<Rightarrow> Registry opt) of
                   Some registry \<Rightarrow>
                     UnmarshalPayloadWithRegistryStrict t pl registry
                       (case mo of None \<Rightarrow> False | Some opt \<Rightarrow> StrictMode opt)
                 | None \<Rightarrow>
                     UnmarshalPayloadStrict g t pl
                       (case mo of None \<Rightarrow> False | Some opt \<Rightarrow> StrictMode opt)) of
             Inl e \<Rightarrow> Inl (e, Some \<lparr>Type = t, ID = i, Payload = pl, Signature = sg\<rparr>)
           | Inr payloadObj \<Rightarrow> Inr (\<lparr>Type = t, ID = i, Payload = pl, Signature = sg\<rparr>, payloadObj)))"
proof -
  have upl: "unat (of_nat (length pl) :: uint32) = length pl"
    by (rule unat_of_nat32 [OF MaxPayloadSize_lt [OF pl]])
  have usg: "unat (of_nat (length sg) :: uint32) = length sg"
    by (rule unat_of_nat32 [OF sg])
  have sg0: "(0 < (of_nat (length sg) :: uint32)) = (sg \<noteq> [])"
    using of_nat32_eq_0 [OF sg] by (simp add: word_greater_zero_iff)
  have sg0': "((of_nat (length sg) :: uint32) = 0) = (sg = [])"
    using of_nat32_eq_0 [OF sg] by simp
  have len: "\<not> length (wire_format t i pl sg @ extra) < HeaderSize + SignatureLengthSize"
    by (simp add: wire_format_def HeaderSize_def SignatureLengthSize_def MessageTypeSize_def
        MessageIDSize_def PayloadLengthSize_def)
  have tk: "take (HeaderSize + length pl) (wire_format t i pl sg @ extra)
              = [t] @ PutUint32 i @ PutUint32 (of_nat (length pl)) @ pl"
  proof -
    define hdr where "hdr = [t] @ PutUint32 i @ PutUint32 (of_nat (length pl)) @ pl"
    have l: "HeaderSize + length pl = length hdr"
      by (simp add: hdr_def HeaderSize_def MessageTypeSize_def MessageIDSize_def
          PayloadLengthSize_def)
    have w: "wire_format t i pl sg @ extra = hdr @ PutUint32 (of_nat (length sg)) @ sg @ extra"
      by (simp add: hdr_def wire_format_def)
    have "take (length hdr) (hdr @ PutUint32 (of_nat (length sg)) @ sg @ extra) = hdr"
      by simp
    then show ?thesis unfolding l w by (simp only: hdr_def)
  qed
  have r1: "ReadByte (wire_format t i pl sg @ extra)
              = Inr (t, PutUint32 i @ PutUint32 (of_nat (length pl)) @ pl
                       @ PutUint32 (of_nat (length sg)) @ sg @ extra)"
    by (simp add: wire_format_def ReadByte_def)
  have r4: "ReadFull (length pl) (pl @ PutUint32 (of_nat (length sg)) @ sg @ extra)
              = Inr (pl, PutUint32 (of_nat (length sg)) @ sg @ extra)"
    by (rule ReadFull_append)
  have r6: "(if 0 < (of_nat (length sg) :: uint32)
             then ReadFull (unat (of_nat (length sg) :: uint32)) (sg @ extra)
             else Inr ([], sg @ extra)) = Inr (sg, extra)"
    by (simp add: usg sg0)
  have mx: "\<not> MaxPayloadSize < length pl" using pl by simp
  show ?thesis
    unfolding UnmarshalMessage_def
    by (simp only: len if_False r1 sum.case prod.case binary_Read_uint32_PutUint32 upl mx r4 r6
        tk Let_def sg0')
qed

lemma MarshalMessage_wire:
  assumes "MarshalPayload um p = Inr b" and "length b \<le> MaxPayloadSize"
  shows "MarshalMessage um t i p mo =
     (case (case mo of None \<Rightarrow> None | Some opt \<Rightarrow> Signer opt) of
        None \<Rightarrow> Inr (wire_format t i b [])
      | Some sign \<Rightarrow>
          (case sign ([t] @ PutUint32 i @ PutUint32 (of_nat (length b)) @ b) of
             Inl e \<Rightarrow> Inl e
           | Inr sg \<Rightarrow> Inr (wire_format t i b sg)))"
  using assms
  by (simp add: MarshalMessage_def wire_format_def binary_Write_uint32_def Let_def not_less [symmetric]
      split: option.splits sum.splits)

lemma ReadFull_InrD: "ReadFull n r = Inr (a, r') \<Longrightarrow> r = a @ r' \<and> length a = n"
  by (auto simp: ReadFull_def split: if_splits)

lemma PutUint32_Uint32: "length b = 4 \<Longrightarrow> PutUint32 (Uint32 b) = b"
proof -
  assume "length b = 4"
  then obtain b0 b1 b2 b3 where b: "b = [b0, b1, b2, b3]"
    by (auto simp: length_Suc_conv numeral_eq_Suc)
  have "ucast (drop_bit 24 (Uint32 b)) = b0"
    unfolding b Uint32_def by (rule bit_word_eqI) (auto simp: bit_simps dest: bit_imp_le_length)
  moreover have "ucast (drop_bit 16 (Uint32 b)) = b1"
    unfolding b Uint32_def by (rule bit_word_eqI) (auto simp: bit_simps dest: bit_imp_le_length)
  moreover have "ucast (drop_bit 8 (Uint32 b)) = b2"
    unfolding b Uint32_def by (rule bit_word_eqI) (auto simp: bit_simps dest: bit_imp_le_length)
  moreover have "ucast (Uint32 b) = b3"
    unfolding b Uint32_def by (rule bit_word_eqI) (auto simp: bit_simps dest: bit_imp_le_length)
  ultimately show ?thesis by (simp add: PutUint32_def b)
qed

lemma binary_Read_uint32_InrD: "binary_Read_uint32 r = Inr (v, r') \<Longrightarrow> r = PutUint32 v @ r'"
  by (auto simp: binary_Read_uint32_def PutUint32_Uint32 split: sum.splits dest!: ReadFull_InrD)

lemma UnmarshalMessage_InrD:
  assumes "UnmarshalMessage g data mo = Inr (msg, obj)"
  shows "\<exists>extra. data = wire_format (Type msg) (ID msg) (Payload msg) (Signature msg) @ extra"
  using assms unfolding UnmarshalMessage_def wire_format_def
  by (auto simp: Let_def ReadByte_def word_greater_zero_iff split: if_splits sum.splits list.splits option.splits
      dest!: ReadFull_InrD binary_Read_uint32_InrD)

lemma length_wire_format: "length (wire_format t i b sg) = 13 + length b + length sg"
  by (simp add: wire_format_def)

lemma MarshalMessage_InrD:
  assumes "MarshalMessage um t i p mo = Inr data"
  shows "\<exists>b sg. MarshalPayload um p = Inr b \<and> length b \<le> MaxPayloadSize \<and> data = wire_format t i b sg"
proof -
  from assms obtain b where b: "MarshalPayload um p = Inr b"
    by (cases "MarshalPayload um p") (auto simp: MarshalMessage_def)
  with assms have l: "length b \<le> MaxPayloadSize"
    by (auto simp: MarshalMessage_def split: if_splits)
  from assms show ?thesis
    unfolding MarshalMessage_wire [OF b l] using b l
    by (auto split: option.splits sum.splits)
qed

text \<open>
  Claim C1 (as amended). In the message that \<open>MarshalMessage\<close> produces and
  \<open>UnmarshalMessage\<close> consumes, the id, the payload length and the signature length
  are fixed-width big-endian 32-bit integers: each of the three fields occupies exactly
  four bytes whatever its value, and a message is 13 bytes longer than its payload and
  signature together. Every message \<open>MarshalMessage\<close> returns has this layout, and every
  input \<open>UnmarshalMessage\<close> accepts starts with the layout of the message it returns.
\<close>

theorem C1_fixed_width_fields:
  "(MarshalMessage um t i p mo = Inr data \<longrightarrow>
      (\<exists>b sg. MarshalPayload um p = Inr b \<and> data = wire_format t i b sg \<and>
               length data = 13 + length b + length sg)) \<and>
   (UnmarshalMessage g data' mo' = Inr (msg, obj) \<longrightarrow>
      (\<exists>extra. data' = wire_format (Type msg) (ID msg) (Payload msg) (Signature msg) @ extra)) \<and>
   length (PutUint32 v) = 4 \<and> Uint32 (PutUint32 v) = v"
proof (intro conjI impI)
  assume "MarshalMessage um t i p mo = Inr data"
  from MarshalMessage_InrD [OF this]
  show "\<exists>b sg. MarshalPayload um p = Inr b \<and> data = wire_format t i b sg \<and>
               length data = 13 + length b + length sg"
    by (auto simp: length_wire_format)
next
  assume "UnmarshalMessage g data' mo' = Inr (msg, obj)"
  then show "\<exists>extra. data' = wire_format (Type msg) (ID msg) (Payload msg) (Signature msg) @ extra"
    by (rule UnmarshalMessage_InrD)
qed simp_all

lemma MarshalMessage_raw_5:
  "MarshalMessage (\<lambda>u::unit. Inr []) 1 5 (PBytes [7]) None
     = Inr [1, 0, 0, 0, 5, 0, 0, 0, 1, 7, 0, 0, 0, 0]"
  by (simp add: MarshalMessage_def MarshalPayload_def MaxPayloadSize_def binary_Write_uint32_def
      PutUint32_def Let_def)

lemma wire_format_raw_5:
  "wire_format 1 5 [7] [] = [1, 0, 0, 0, 5, 0, 0, 0, 1, 7, 0, 0, 0, 0]"
  by (simp add: wire_format_def PutUint32_def)

lemma UnmarshalMessage_raw_5:
  "UnmarshalMessage (NewPayloadRegistry :: unit PayloadRegistry)
     [1, 0, 0, 0, 5, 0, 0, 0, 1, 7, 0, 0, 0, 0] None
     = Inr (\<lparr>Type = 1, ID = 5, Payload = [7], Signature = []\<rparr>, PBytes [7])"
proof -
  have g: "Get (NewPayloadRegistry :: unit PayloadRegistry) 1 = None"
    by (simp add: Get_def NewPayloadRegistry_def registerStreamingTypes_def
        MessageTypeStreamStart_def MessageTypeStreamChunk_def)
  have "UnmarshalMessage (NewPayloadRegistry :: unit PayloadRegistry)
          (wire_format 1 5 [7] [] @ []) None
        = Inr (\<lparr>Type = 1, ID = 5, Payload = [7], Signature = []\<rparr>, PBytes [7])"
    by (subst UnmarshalMessage_wire) (simp_all add: MaxPayloadSize_def UnmarshalPayloadStrict_def g)
  then show ?thesis by (simp add: wire_format_raw_5)
qed

theorem C1_fixed_width_fields_witness:
  "(\<exists>b sg. MarshalPayload (\<lambda>u::unit. Inr []) (PBytes [7]) = Inr b \<and>
       [1, 0, 0, 0, 5, 0, 0, 0, 1, 7, 0, 0, 0, 0] = wire_format 1 5 b sg \<and>
       length [1, 0, 0, 0, 5, 0, 0, 0, 1, 7, 0, 0, 0, 0 :: byte] = 13 + length b + length sg) \<and>
   (\<exists>extra. [1, 0, 0, 0, 5, 0, 0, 0, 1, 7, 0, 0, 0, 0] = wire_format 1 5 [7] [] @ extra)"
  using C1_fixed_width_fields
    [of "\<lambda>u::unit. Inr []" 1 5 "PBytes [7]" None "[1, 0, 0, 0, 5, 0, 0, 0, 1, 7, 0, 0, 0, 0]"
        "NewPayloadRegistry :: unit PayloadRegistry" "[1, 0, 0, 0, 5, 0, 0, 0, 1, 7, 0, 0, 0, 0]"
        None "\<lparr>Type = 1, ID = 5, Payload = [7], Signature = []\<rparr>" "PBytes [7]"]
  by (simp only: MarshalMessage_raw_5 UnmarshalMessage_raw_5 simp_thms Message.simps)

text \<open>
  The claim as written fails: with id 5 and an empty payload and signature, all below
  128, the varint layout would be the four bytes \<open>[1, 5, 0, 0]\<close>, and \<open>MarshalMessage\<close>
  returns thirteen bytes, four for each of the three fields.
\<close>

theorem C1_counterexample:
  "MarshalMessage (\<lambda>u::unit. Inr []) 1 5 (PBytes []) None
     = Inr [1, 0, 0, 0, 5, 0, 0, 0, 0, 0, 0, 0, 0] \<and>
   spec_varint_frame 1 5 [] [] = [1, 5, 0, 0] \<and>
   MarshalMessage (\<lambda>u::unit. Inr []) 1 5 (PBytes []) None \<noteq> Inr (spec_varint_frame 1 5 [] [])"
  by (simp add: MarshalMessage_def MarshalPayload_def MaxPayloadSize_def binary_Write_uint32_def
      PutUint32_def Let_def spec_varint_frame_def WriteVarint.simps)


lemma wire_format_signed:
  "wire_format 1 5 [7] [0xAA] = [1, 0, 0, 0, 5, 0, 0, 0, 1, 7, 0, 0, 0, 1, 0xAA]"
  by (simp add: wire_format_def PutUint32_def)


lemma UnmarshalMessage_too_large:
  assumes len: "13 \<le> length data"
    and big: "MaxPayloadSize < unat (Uint32 (take 4 (drop 5 data)))"
  shows "UnmarshalMessage g data mo = Inl (ErrPayloadTooLarge, None)"
proof -
  from len obtain t r1 where d: "data = t # r1" by (cases data) auto
  with len have l1: "12 \<le> length r1" by simp
  have a: "ReadByte data = Inr (t, r1)" by (simp add: d ReadByte_def)
  have b: "binary_Read_uint32 r1 = Inr (Uint32 (take 4 r1), drop 4 r1)"
    using l1 by (auto simp: binary_Read_uint32_def ReadFull_def)
  have c: "binary_Read_uint32 (drop 4 r1) = Inr (Uint32 (take 4 (drop 4 r1)), drop 4 (drop 4 r1))"
    using l1 by (auto simp: binary_Read_uint32_def ReadFull_def)
  have e: "take 4 (drop 4 r1) = take 4 (drop 5 data)" by (simp add: d)
  have f: "\<not> length data < HeaderSize + SignatureLengthSize"
    using len by (simp add: HeaderSize_def SignatureLengthSize_def MessageTypeSize_def
        MessageIDSize_def PayloadLengthSize_def)
  show ?thesis
    unfolding UnmarshalMessage_def
    by (simp only: f if_False a b c e big if_True sum.case prod.case)
qed

text \<open>
  Claim C8. When the payload serializes to \<open>b\<close> (and a configured signer does not
  itself return \<open>ErrPayloadTooLarge\<close>), \<open>MarshalMessage\<close> fails with
  \<open>ErrPayloadTooLarge\<close> if and only if \<open>b\<close> is longer than 100 * 1024 * 1024 bytes; a
  payload of exactly that length is marshalled. \<open>UnmarshalMessage\<close> fails with
  \<open>ErrPayloadTooLarge\<close> on every input of at least 13 bytes whose payload length field
  (bytes 5 to 8) exceeds 100 MiB, whatever follows the field: it does not read the
  payload first.
\<close>

theorem C8_payload_bound:
  "(MarshalPayload um p = Inr b \<and>
    (\<forall>sign. (case mo of None \<Rightarrow> None | Some opt \<Rightarrow> Signer opt) = Some sign \<longrightarrow>
       sign ([t] @ PutUint32 i @ PutUint32 (of_nat (length b)) @ b) \<noteq> Inl ErrPayloadTooLarge) \<longrightarrow>
      (MarshalMessage um t i p mo = Inl ErrPayloadTooLarge \<longleftrightarrow> length b > 100 * 1024 * 1024)) \<and>
   (MarshalPayload um p = Inr b \<and> length b = 100 * 1024 * 1024 \<longrightarrow>
      MarshalMessage um t i p None = Inr (wire_format t i b [])) \<and>
   (13 \<le> length data \<and> unat (Uint32 (take 4 (drop 5 data))) > 100 * 1024 * 1024 \<longrightarrow>
      UnmarshalMessage g data mo' = Inl (ErrPayloadTooLarge, None))"
proof (intro conjI impI)
  assume a: "MarshalPayload um p = Inr b \<and>
    (\<forall>sign. (case mo of None \<Rightarrow> None | Some opt \<Rightarrow> Signer opt) = Some sign \<longrightarrow>
       sign ([t] @ PutUint32 i @ PutUint32 (of_nat (length b)) @ b) \<noteq> Inl ErrPayloadTooLarge)"
  show "MarshalMessage um t i p mo = Inl ErrPayloadTooLarge \<longleftrightarrow> length b > 100 * 1024 * 1024"
  proof (cases "length b \<le> MaxPayloadSize")
    case True
    with a show ?thesis
      unfolding MarshalMessage_wire [OF conjunct1 [OF a] True]
      by (auto simp: MaxPayloadSize_def split: option.splits sum.splits)
  next
    case False
    with a show ?thesis
      by (simp add: MarshalMessage_def MaxPayloadSize_def)
  qed
next
  assume a: "MarshalPayload um p = Inr b \<and> length b = 100 * 1024 * 1024"
  then have "length b \<le> MaxPayloadSize" by (simp add: MaxPayloadSize_def)
  from MarshalMessage_wire [OF conjunct1 [OF a] this]
  show "MarshalMessage um t i p None = Inr (wire_format t i b [])" by simp
next
  assume "13 \<le> length data \<and> unat (Uint32 (take 4 (drop 5 data))) > 100 * 1024 * 1024"
  then show "UnmarshalMessage g data mo' = Inl (ErrPayloadTooLarge, None)"
    by (intro UnmarshalMessage_too_large) (simp_all add: MaxPayloadSize_def)
qed

lemma Uint32_FF: "unat (Uint32 [0xFF, 0xFF, 0xFF, 0xFF]) = 4294967295"
  by (simp add: Uint32_def)

theorem C8_payload_bound_witness:
  "(MarshalMessage (\<lambda>u::unit. Inr []) 1 5 (PBytes [7]) None = Inl ErrPayloadTooLarge
      \<longleftrightarrow> length [7::byte] > 100 * 1024 * 1024) \<and>
   UnmarshalMessage (NewPayloadRegistry :: unit PayloadRegistry)
     [1, 0, 0, 0, 1, 0xFF, 0xFF, 0xFF, 0xFF, 0, 0, 0, 0] None = Inl (ErrPayloadTooLarge, None)"
proof -
  have a: "MarshalPayload (\<lambda>u::unit. Inr []) (PBytes [7]) = Inr [7]"
    by (simp add: MarshalPayload_def)
  from a C8_payload_bound [where um = "\<lambda>u::unit. Inr []" and p = "PBytes [7]" and b = "[7]"
      and mo = None and t = 1 and i = 5 and g = "NewPayloadRegistry :: unit PayloadRegistry"
      and data = "[1, 0, 0, 0, 1, 0xFF, 0xFF, 0xFF, 0xFF, 0, 0, 0, 0]" and mo' = None]
  show ?thesis by (simp add: Uint32_FF)
qed

section \<open>Round trip\<close>

lemma length_WriteVarint_bound:
  "0 < k \<Longrightarrow> unat v < 2 ^ (7 * k) \<Longrightarrow> length (WriteVarint [] v) \<le> k"
proof (induction k arbitrary: v)
  case 0
  then show ?case by simp
next
  case (Suc k)
  show ?case
  proof (cases "v \<ge> 0x80")
    case False
    then have "v < 0x80" by simp
    then show ?thesis by (simp add: WriteVarint_small)
  next
    case True
    then have "2 ^ 7 \<le> unat v" by (simp add: word_le_nat_alt)
    with Suc.prems(2) have "(2::nat) ^ 7 < 2 ^ (7 * Suc k)" by linarith
    then have "7 < 7 * Suc k" by (simp only: power_strict_increasing_iff)
    then have k: "0 < k" by simp
    have "unat (drop_bit 7 v) = unat v div 2 ^ 7"
      by (simp add: unat_drop_bit_eq drop_bit_eq_div unat_div)
    moreover have "(2::nat) ^ (7 * Suc k) = 2 ^ 7 * 2 ^ (7 * k)"
      by (simp add: power_add)
    ultimately have "unat (drop_bit 7 v) < 2 ^ (7 * k)"
      using Suc.prems(2) by (simp add: less_mult_imp_div_less mult.commute)
    from Suc.IH [OF k this] show ?thesis
      by (simp add: WriteVarint_big [OF True])
  qed
qed

lemma length_WriteVarint_le: "length (WriteVarint [] v) \<le> 10"
proof -
  have "unat v < 2 ^ 64" using unsigned_less [of v, where ?'a = nat] by simp
  also have "(2::nat) ^ 64 \<le> 2 ^ (7 * 10)" by simp
  finally show ?thesis by (intro length_WriteVarint_bound) simp_all
qed

lemma length_WriteVarint_pos: "0 < length (WriteVarint [] v)"
  by (cases "v \<ge> 0x80") (simp_all add: WriteVarint_big WriteVarint_small not_le)

lemma ucast32_64_le: "\<not> (0xFFFFFFFF :: uint64) < ucast (v :: uint32)"
proof -
  have "unat v < 2 ^ 32" using unsigned_less [of v, where ?'a = nat] by simp
  then have "unat (ucast v :: uint64) = unat v"
    by (simp add: unsigned_ucast_eq take_bit_nat_eq_self)
  with \<open>unat v < 2 ^ 32\<close> show ?thesis by (simp add: word_less_nat_alt)
qed

lemma ucast32_64_32: "(ucast (ucast (v :: uint32) :: uint64) :: uint32) = v"
  by (rule bit_word_eqI) (auto simp: bit_simps)

lemma ReadUint32_WriteUint32: "ReadUint32 (WriteUint32 [] v @ rest) = Inr (v, rest)"
  by (simp add: ReadUint32_def WriteUint32_def ReadVarint_WriteVarint ucast32_64_le ucast32_64_32)

lemma ReadUint64_WriteUint64: "ReadUint64 (WriteUint64 [] v @ rest) = Inr (v, rest)"
  by (simp add: ReadUint64_def WriteUint64_def ReadVarint_WriteVarint)

lemma WriteUint32_append: "WriteUint32 buf v = buf @ WriteUint32 [] v"
  unfolding WriteUint32_def by (rule WriteVarint_append)

lemma WriteUint64_append: "WriteUint64 buf v = buf @ WriteUint64 [] v"
  unfolding WriteUint64_def by (rule WriteVarint_append)

lemma WriteBytes_append: "WriteBytes buf d = buf @ WriteBytes [] d"
  unfolding WriteBytes_def by (subst WriteVarint_append) simp

lemma unat_of_nat64: "n < 18446744073709551616 \<Longrightarrow> unat (of_nat n :: uint64) = n"
  by (simp add: unat_of_nat)

lemma ReadBytes_WriteBytes:
  assumes "length d \<le> 2 ^ 30"
  shows "ReadBytes (WriteBytes [] d @ rest) = Inr (d, rest)"
proof -
  have u: "unat (of_nat (length d) :: uint64) = length d"
    using assms by (intro unat_of_nat64) simp
  have "unat (of_nat (length d) :: uint64) \<le> unat (2 ^ 30 :: uint64)"
    using assms by (simp add: u)
  then have "\<not> (2 ^ 30 :: uint64) < of_nat (length d)"
    by (simp only: word_less_nat_alt not_less)
  then show ?thesis
    by (simp add: ReadBytes_def WriteBytes_def ReadVarint_WriteVarint u)
qed

lemma StreamHeader_round_trip: "StreamHeader_Unmarshal (StreamHeader_Marshal h) = Inr h"
proof -
  have "StreamHeader_Marshal h
          = OriginalType h # WriteUint64 [] (TotalSize h) @ WriteUint32 [] (TotalChunks h) @ []"
    unfolding StreamHeader_Marshal_def
    by (subst WriteUint32_append, subst WriteUint64_append) simp
  then show ?thesis
    by (simp only: StreamHeader_Unmarshal_def ReadByte_def list.case sum.case prod.case
        ReadUint64_WriteUint64 ReadUint32_WriteUint32) simp
qed

lemma length_StreamHeader_Marshal: "length (StreamHeader_Marshal h) \<le> 21"
proof -
  have "StreamHeader_Marshal h
          = OriginalType h # WriteVarint [] (TotalSize h) @ WriteVarint [] (ucast (TotalChunks h))"
    unfolding StreamHeader_Marshal_def WriteUint32_def WriteUint64_def
    by (subst WriteVarint_append, subst WriteVarint_append) simp
  then show ?thesis
    using length_WriteVarint_le [of "TotalSize h"] length_WriteVarint_le [of "ucast (TotalChunks h)"]
    by simp
qed

lemma StreamChunk_Marshal_eq:
  "StreamChunk_Marshal c
     = WriteVarint [] (ucast (ChunkIndex c)) @ WriteVarint [] (of_nat (length (Data c))) @ Data c"
  unfolding StreamChunk_Marshal_def WriteBytes_def WriteUint32_def
  by (subst WriteVarint_append) simp

lemma length_StreamChunk_Marshal_ge: "length (Data c) + 2 \<le> length (StreamChunk_Marshal c)"
proof -
  have "length (StreamChunk_Marshal c)
          = length (WriteVarint [] (ucast (ChunkIndex c)))
            + length (WriteVarint [] (of_nat (length (Data c)))) + length (Data c)"
    by (simp add: StreamChunk_Marshal_eq)
  with length_WriteVarint_pos [of "ucast (ChunkIndex c)"]
    length_WriteVarint_pos [of "of_nat (length (Data c))"]
  show ?thesis by linarith
qed

lemma length_StreamChunk_Marshal_le: "length (StreamChunk_Marshal c) \<le> length (Data c) + 20"
  using length_WriteVarint_le [of "ucast (ChunkIndex c)"]
    length_WriteVarint_le [of "of_nat (length (Data c))"]
  by (simp add: StreamChunk_Marshal_eq)

lemma StreamChunk_round_trip:
  assumes "length (Data c) \<le> 2 ^ 30"
  shows "StreamChunk_Unmarshal (StreamChunk_Marshal c) = Inr c"
proof -
  have "StreamChunk_Marshal c = WriteUint32 [] (ChunkIndex c) @ WriteBytes [] (Data c) @ []"
    unfolding StreamChunk_Marshal_def by (subst WriteBytes_append) simp
  then show ?thesis
    by (simp only: StreamChunk_Unmarshal_def sum.case prod.case
        ReadUint32_WriteUint32 ReadBytes_WriteBytes [OF assms]) simp
qed

lemma round_trip_general:
  assumes m: "MarshalPayload um p = Inr b" and l: "length b \<le> MaxPayloadSize"
    and u: "UnmarshalPayloadStrict g t b False = Inr p'"
  shows "MarshalMessage um t i p None = Inr (wire_format t i b []) \<and>
         UnmarshalMessage g (wire_format t i b []) None
           = Inr (\<lparr>Type = t, ID = i, Payload = b, Signature = []\<rparr>, p')"
proof -
  have "UnmarshalMessage g (wire_format t i b [] @ []) None
          = Inr (\<lparr>Type = t, ID = i, Payload = b, Signature = []\<rparr>, p')"
    by (subst UnmarshalMessage_wire [OF l]) (simp_all add: u)
  with MarshalMessage_wire [OF m l, of t i None] show ?thesis by simp
qed

text \<open>
  Claim C2 (as amended). With nil options on both sides and any id,
  \<open>UnmarshalMessage\<close> of what \<open>MarshalMessage\<close> returned succeeds and gives back the
  type, the id, the serialized payload and a decoded payload equal to the one sent, in
  each of these cases: the payload is a raw byte slice of at most 100 MiB and the global
  registry has no factory for the type; the payload is a user payload whose serialized
  form is at most 100 MiB and the factory registered for the type unmarshals that form
  back to the payload; the payload is a \<open>StreamHeader\<close> and the type has the built-in
  \<open>StreamHeader\<close> factory (type 250); the payload is a \<open>StreamChunk\<close> whose serialized form
  is at most 100 MiB and the type has the built-in \<open>StreamChunk\<close> factory (type 251).
\<close>

theorem C2_round_trip:
  "(Get g t = None \<and> length b \<le> MaxPayloadSize \<longrightarrow>
      (\<exists>data. MarshalMessage um t i (PBytes b) None = Inr data \<and>
         UnmarshalMessage g data None
           = Inr (\<lparr>Type = t, ID = i, Payload = b, Signature = []\<rparr>, PBytes b))) \<and>
   (Get g t = Some (UserFactory unmarshal) \<and> um u = Inr b \<and> unmarshal b = Inr u \<and>
    length b \<le> MaxPayloadSize \<longrightarrow>
      (\<exists>data. MarshalMessage um t i (PUser u) None = Inr data \<and>
         UnmarshalMessage g data None
           = Inr (\<lparr>Type = t, ID = i, Payload = b, Signature = []\<rparr>, PUser u))) \<and>
   (Get g t = Some StreamHeaderFactory \<longrightarrow>
      (\<exists>data. MarshalMessage um t i (PStreamHeader h) None = Inr data \<and>
         UnmarshalMessage g data None
           = Inr (\<lparr>Type = t, ID = i, Payload = StreamHeader_Marshal h, Signature = []\<rparr>,
                  PStreamHeader h))) \<and>
   (Get g t = Some StreamChunkFactory \<and> length (StreamChunk_Marshal c) \<le> MaxPayloadSize \<longrightarrow>
      (\<exists>data. MarshalMessage um t i (PStreamChunk c) None = Inr data \<and>
         UnmarshalMessage g data None
           = Inr (\<lparr>Type = t, ID = i, Payload = StreamChunk_Marshal c, Signature = []\<rparr>,
                  PStreamChunk c)))"
proof (intro conjI impI)
  assume a: "Get g t = None \<and> length b \<le> MaxPayloadSize"
  have "MarshalPayload um (PBytes b) = Inr b" by (simp add: MarshalPayload_def)
  moreover have "UnmarshalPayloadStrict g t b False = Inr (PBytes b)"
    using a by (simp add: UnmarshalPayloadStrict_def)
  ultimately show "\<exists>data. MarshalMessage um t i (PBytes b) None = Inr data \<and>
         UnmarshalMessage g data None
           = Inr (\<lparr>Type = t, ID = i, Payload = b, Signature = []\<rparr>, PBytes b)"
    using a round_trip_general by blast
next
  assume a: "Get g t = Some (UserFactory unmarshal) \<and> um u = Inr b \<and> unmarshal b = Inr u \<and>
    length b \<le> MaxPayloadSize"
  then have "MarshalPayload um (PUser u) = Inr b" by (simp add: MarshalPayload_def)
  moreover have "UnmarshalPayloadStrict g t b False = Inr (PUser u)"
    using a by (simp add: UnmarshalPayloadStrict_def factory_Unmarshal_def)
  ultimately show "\<exists>data. MarshalMessage um t i (PUser u) None = Inr data \<and>
         UnmarshalMessage g data None
           = Inr (\<lparr>Type = t, ID = i, Payload = b, Signature = []\<rparr>, PUser u)"
    using a round_trip_general by blast
next
  assume a: "Get g t = Some StreamHeaderFactory"
  have "MarshalPayload um (PStreamHeader h) = Inr (StreamHeader_Marshal h)"
    by (simp add: MarshalPayload_def)
  moreover have "UnmarshalPayloadStrict g t (StreamHeader_Marshal h) False = Inr (PStreamHeader h)"
    using a by (simp add: UnmarshalPayloadStrict_def factory_Unmarshal_def StreamHeader_round_trip)
  moreover have "length (StreamHeader_Marshal h) \<le> MaxPayloadSize"
    using length_StreamHeader_Marshal [of h] by (simp add: MaxPayloadSize_def)
  ultimately show "\<exists>data. MarshalMessage um t i (PStreamHeader h) None = Inr data \<and>
         UnmarshalMessage g data None
           = Inr (\<lparr>Type = t, ID = i, Payload = StreamHeader_Marshal h, Signature = []\<rparr>,
                  PStreamHeader h)"
    using round_trip_general by blast
next
  assume a: "Get g t = Some StreamChunkFactory \<and> length (StreamChunk_Marshal c) \<le> MaxPayloadSize"
  have "MarshalPayload um (PStreamChunk c) = Inr (StreamChunk_Marshal c)"
    by (simp add: MarshalPayload_def)
  moreover have "length (Data c) \<le> 2 ^ 30"
    using a length_StreamChunk_Marshal_ge [of c] by (simp add: MaxPayloadSize_def)
  then have "UnmarshalPayloadStrict g t (StreamChunk_Marshal c) False = Inr (PStreamChunk c)"
    using a by (simp add: UnmarshalPayloadStrict_def factory_Unmarshal_def StreamChunk_round_trip)
  ultimately show "\<exists>data. MarshalMessage um t i (PStreamChunk c) None = Inr data \<and>
         UnmarshalMessage g data None
           = Inr (\<lparr>Type = t, ID = i, Payload = StreamChunk_Marshal c, Signature = []\<rparr>,
                  PStreamChunk c)"
    using a round_trip_general by blast
qed

lemma Get_Register_1:
  "Get (Register (NewPayloadRegistry :: (byte list) PayloadRegistry) 1 (Some (UserFactory Inr))) 1
     = Some (UserFactory Inr)"
  by (simp add: Get_def Register_def IsReservedType_def word_le_nat_alt)

theorem C2_round_trip_witness:
  "(\<exists>data. MarshalMessage (\<lambda>u::unit. Inr []) 200 1 (PBytes [0xDE, 0xAD, 0xBE, 0xEF]) None = Inr data \<and>
      UnmarshalMessage (NewPayloadRegistry :: unit PayloadRegistry) data None
        = Inr (\<lparr>Type = 200, ID = 1, Payload = [0xDE, 0xAD, 0xBE, 0xEF], Signature = []\<rparr>,
               PBytes [0xDE, 0xAD, 0xBE, 0xEF])) \<and>
   (\<exists>data. MarshalMessage Inr 1 42 (PUser [1, 2, 3]) None = Inr data \<and>
      UnmarshalMessage (Register NewPayloadRegistry 1 (Some (UserFactory Inr))) data None
        = Inr (\<lparr>Type = 1, ID = 42, Payload = [1, 2, 3], Signature = []\<rparr>, PUser [1, 2, 3])) \<and>
   (\<exists>data. MarshalMessage (\<lambda>u::unit. Inr []) 250 7
              (PStreamHeader \<lparr>OriginalType = 3, TotalSize = 10485760, TotalChunks = 160\<rparr>) None
            = Inr data \<and>
      UnmarshalMessage (NewPayloadRegistry :: unit PayloadRegistry) data None
        = Inr (\<lparr>Type = 250, ID = 7,
                Payload = StreamHeader_Marshal \<lparr>OriginalType = 3, TotalSize = 10485760, TotalChunks = 160\<rparr>,
                Signature = []\<rparr>,
               PStreamHeader \<lparr>OriginalType = 3, TotalSize = 10485760, TotalChunks = 160\<rparr>)) \<and>
   (\<exists>data. MarshalMessage (\<lambda>u::unit. Inr []) 251 7
              (PStreamChunk \<lparr>ChunkIndex = 42, Data = [0xDE, 0xAD, 0xBE, 0xEF]\<rparr>) None
            = Inr data \<and>
      UnmarshalMessage (NewPayloadRegistry :: unit PayloadRegistry) data None
        = Inr (\<lparr>Type = 251, ID = 7,
                Payload = StreamChunk_Marshal \<lparr>ChunkIndex = 42, Data = [0xDE, 0xAD, 0xBE, 0xEF]\<rparr>,
                Signature = []\<rparr>,
               PStreamChunk \<lparr>ChunkIndex = 42, Data = [0xDE, 0xAD, 0xBE, 0xEF]\<rparr>))"
proof -
  have l1: "length [0xDE, 0xAD, 0xBE, 0xEF :: byte] \<le> MaxPayloadSize"
    and l2: "length [1, 2, 3 :: byte] \<le> MaxPayloadSize"
    by (simp_all add: MaxPayloadSize_def)
  have l4: "length (StreamChunk_Marshal \<lparr>ChunkIndex = 42, Data = [0xDE, 0xAD, 0xBE, 0xEF]\<rparr>)
              \<le> MaxPayloadSize"
    using length_StreamChunk_Marshal_le [of "\<lparr>ChunkIndex = 42, Data = [0xDE, 0xAD, 0xBE, 0xEF]\<rparr>"]
    by (simp add: MaxPayloadSize_def)
  have u: "(Inr :: byte list \<Rightarrow> error + byte list) [1, 2, 3] = Inr [1, 2, 3]" by simp
  from C2_round_trip [where g = "NewPayloadRegistry :: unit PayloadRegistry" and t = 200
        and b = "[0xDE, 0xAD, 0xBE, 0xEF]" and um = "\<lambda>u::unit. Inr []" and i = 1]
      Get_New_200 [where ?'u = unit] l1
  have a: "\<exists>data. MarshalMessage (\<lambda>u::unit. Inr []) 200 1 (PBytes [0xDE, 0xAD, 0xBE, 0xEF]) None = Inr data \<and>
      UnmarshalMessage (NewPayloadRegistry :: unit PayloadRegistry) data None
        = Inr (\<lparr>Type = 200, ID = 1, Payload = [0xDE, 0xAD, 0xBE, 0xEF], Signature = []\<rparr>,
               PBytes [0xDE, 0xAD, 0xBE, 0xEF])"
    by blast
  from C2_round_trip [where g = "Register NewPayloadRegistry 1 (Some (UserFactory Inr))" and t = 1
        and b = "[1, 2, 3]" and um = Inr and i = 42 and unmarshal = Inr and u = "[1, 2, 3]"]
      Get_Register_1 l2 u
  have b: "\<exists>data. MarshalMessage Inr 1 42 (PUser [1, 2, 3]) None = Inr data \<and>
      UnmarshalMessage (Register NewPayloadRegistry 1 (Some (UserFactory Inr))) data None
        = Inr (\<lparr>Type = 1, ID = 42, Payload = [1, 2, 3], Signature = []\<rparr>, PUser [1, 2, 3])"
    by blast
  from C2_round_trip [where g = "NewPayloadRegistry :: unit PayloadRegistry" and t = 250
        and um = "\<lambda>u::unit. Inr []" and i = 7
        and h = "\<lparr>OriginalType = 3, TotalSize = 10485760, TotalChunks = 160\<rparr>"]
      Get_New_250 [where ?'u = unit]
  have c: "\<exists>data. MarshalMessage (\<lambda>u::unit. Inr []) 250 7
              (PStreamHeader \<lparr>OriginalType = 3, TotalSize = 10485760, TotalChunks = 160\<rparr>) None
            = Inr data \<and>
      UnmarshalMessage (NewPayloadRegistry :: unit PayloadRegistry) data None
        = Inr (\<lparr>Type = 250, ID = 7,
                Payload = StreamHeader_Marshal \<lparr>OriginalType = 3, TotalSize = 10485760, TotalChunks = 160\<rparr>,
                Signature = []\<rparr>,
               PStreamHeader \<lparr>OriginalType = 3, TotalSize = 10485760, TotalChunks = 160\<rparr>)"
    by blast
  from C2_round_trip [where g = "NewPayloadRegistry :: unit PayloadRegistry" and t = 251
        and um = "\<lambda>u::unit. Inr []" and i = 7
        and c = "\<lparr>ChunkIndex = 42, Data = [0xDE, 0xAD, 0xBE, 0xEF]\<rparr>"]
      Get_New_251 [where ?'u = unit] l4
  have d: "\<exists>data. MarshalMessage (\<lambda>u::unit. Inr []) 251 7
              (PStreamChunk \<lparr>ChunkIndex = 42, Data = [0xDE, 0xAD, 0xBE, 0xEF]\<rparr>) None
            = Inr data \<and>
      UnmarshalMessage (NewPayloadRegistry :: unit PayloadRegistry) data None
        = Inr (\<lparr>Type = 251, ID = 7,
                Payload = StreamChunk_Marshal \<lparr>ChunkIndex = 42, Data = [0xDE, 0xAD, 0xBE, 0xEF]\<rparr>,
                Signature = []\<rparr>,
               PStreamChunk \<lparr>ChunkIndex = 42, Data = [0xDE, 0xAD, 0xBE, 0xEF]\<rparr>)"
    by blast
  from a b c d show ?thesis by (intro conjI)
qed

text \<open>
  The claim as written, for every message type, fails for a raw byte slice sent under a
  type that has a factory: the empty byte slice under type 250 is marshalled, and
  unmarshalling hands it to the \<open>StreamHeader\<close> decoder, which fails with \<open>io.EOF\<close>.
\<close>

theorem C2_counterexample:
  "MarshalMessage (\<lambda>u::unit. Inr []) 250 1 (PBytes []) None
     = Inr [250, 0, 0, 0, 1, 0, 0, 0, 0, 0, 0, 0, 0] \<and>
   UnmarshalMessage (NewPayloadRegistry :: unit PayloadRegistry)
     [250, 0, 0, 0, 1, 0, 0, 0, 0, 0, 0, 0, 0] None
     = Inl (EOF, Some \<lparr>Type = 250, ID = 1, Payload = [], Signature = []\<rparr>)"
proof -
  have w: "wire_format 250 1 [] [] = [250, 0, 0, 0, 1, 0, 0, 0, 0, 0, 0, 0, 0]"
    by (simp add: wire_format_def PutUint32_def)
  have m: "MarshalPayload (\<lambda>u::unit. Inr []) (PBytes []) = Inr []"
    by (simp add: MarshalPayload_def)
  have l: "length ([] :: byte list) \<le> MaxPayloadSize" by simp
  have "UnmarshalMessage (NewPayloadRegistry :: unit PayloadRegistry) (wire_format 250 1 [] [] @ []) None
          = Inl (EOF, Some \<lparr>Type = 250, ID = 1, Payload = [], Signature = []\<rparr>)"
    by (subst UnmarshalMessage_wire [OF l])
       (simp_all add: UnmarshalPayloadStrict_def Get_New_250 factory_Unmarshal_def
          StreamHeader_Unmarshal_def ReadByte_def)
  with MarshalMessage_wire [OF m l, of 250 1 None] show ?thesis by (simp add: w)
qed

section \<open>Stream reassembly\<close>

lemma addChunk_Some:
  assumes "activeStreams p i = Some a"
  shows "addChunk p i c =
     (let a' = a\<lparr>chunks := (chunks a)(ChunkIndex c \<mapsto> Data c), received := received a + 1\<rparr>
      in (if received a + 1 = TotalChunks (header a)
          then (case assembleStream a' of Inl e \<Rightarrow> Inl e | Inr result \<Rightarrow> Inr (True, result))
          else Inr (False, []),
          p\<lparr>activeStreams := (activeStreams p)(i \<mapsto> a')\<rparr>))"
  using assms by (simp add: addChunk_def Let_def split: sum.splits)

lemma addChunk_None: "activeStreams p i = None \<Longrightarrow> addChunk p i c = (Inr (False, []), p)"
  by (simp add: addChunk_def)

lemma fold_addChunk:
  "activeStreams p i = Some a \<Longrightarrow>
   activeStreams (fold (\<lambda>c p. snd (addChunk p i c)) xs p) i
     = Some (a\<lparr>chunks := fold (\<lambda>c m. m(ChunkIndex c \<mapsto> Data c)) xs (chunks a),
                received := received a + of_nat (length xs)\<rparr>)"
proof (induction xs arbitrary: p a)
  case Nil
  then show ?case by simp
next
  case (Cons x xs)
  let ?a = "a\<lparr>chunks := (chunks a)(ChunkIndex x \<mapsto> Data x), received := received a + 1\<rparr>"
  have "activeStreams (snd (addChunk p i x)) i = Some ?a"
    by (simp add: addChunk_Some [OF Cons.prems] Let_def)
  from Cons.IH [OF this] show ?case by (simp add: algebra_simps)
qed

lemma dom_fold_chunks:
  "dom (fold (\<lambda>c m. m(ChunkIndex c \<mapsto> Data c)) xs m) = dom m \<union> ChunkIndex ` set xs"
  by (induction xs arbitrary: m) auto

lemma card_words_below: "card {j :: uint32. j < n} = unat n"
proof -
  have "unat ` {j :: uint32. j < n} = {0..<unat n}"
  proof (intro set_eqI iffI)
    fix k assume "k \<in> unat ` {j :: uint32. j < n}"
    then show "k \<in> {0..<unat n}" by (auto simp: word_less_nat_alt)
  next
    fix k assume k: "k \<in> {0..<unat n}"
    moreover have "unat n < 2 ^ 32" using unsigned_less [of n, where ?'a = nat] by simp
    ultimately have "unat (of_nat k :: uint32) = k" by (simp add: unat_of_nat)
    with k have "(of_nat k :: uint32) < n" and "k = unat (of_nat k :: uint32)"
      by (simp_all add: word_less_nat_alt)
    then show "k \<in> unat ` {j :: uint32. j < n}" by blast
  qed
  moreover have "inj_on unat {j :: uint32. j < n}" by (auto simp: inj_on_def word_unat_eq_iff)
  ultimately show ?thesis by (metis card_image card_atLeastLessThan diff_zero)
qed

lemma missing_index:
  assumes "\<not> distinct (map ChunkIndex cs)" and "length cs = unat n"
  shows "\<exists>j. j < n \<and> j \<notin> ChunkIndex ` set cs"
proof (rule ccontr)
  assume "\<not> (\<exists>j. j < n \<and> j \<notin> ChunkIndex ` set cs)"
  then have "{j. j < n} \<subseteq> ChunkIndex ` set cs" by auto
  then have "card {j. j < n} \<le> card (ChunkIndex ` set cs)"
    by (intro card_mono) auto
  moreover have "card (ChunkIndex ` set cs) < length cs"
  proof -
    have "card (set (map ChunkIndex cs)) \<noteq> length (map ChunkIndex cs)"
      using assms(1) card_distinct by blast
    moreover have "card (set (map ChunkIndex cs)) \<le> length (map ChunkIndex cs)"
      by (rule card_length)
    ultimately show ?thesis by simp
  qed
  ultimately show False using assms(2) by (simp add: card_words_below)
qed

lemma assembleStream_loop_eq:
  "unat i \<le> unat (TotalChunks (header a)) \<Longrightarrow>
   assembleStream_loop a i res
     = res @ concat (map (\<lambda>k. case chunks a (of_nat k) of None \<Rightarrow> [] | Some d \<Rightarrow> d)
                       [unat i ..< unat (TotalChunks (header a))])"
proof (induction a i res rule: assembleStream_loop.induct)
  case (1 a i res)
  let ?n = "TotalChunks (header a)"
  show ?case
  proof (cases "i < ?n")
    case True
    then have lt: "unat i < unat ?n" by (simp add: word_less_nat_alt)
    moreover have "unat ?n < 2 ^ 32" using unsigned_less [of ?n, where ?'a = nat] by simp
    ultimately have "unat i + unat (1 :: uint32) < 2 ^ LENGTH(32)" by simp
    then have s: "unat (i + 1) = Suc (unat i)" by (simp only: unat_add_lem) simp
    have u: "[unat i ..< unat ?n] = unat i # [Suc (unat i) ..< unat ?n]"
      using lt by (simp add: upt_conv_Cons)
    have "assembleStream_loop a i res
            = assembleStream_loop a (i + 1) (res @ (case chunks a i of None \<Rightarrow> [] | Some d \<Rightarrow> d))"
      using True by (subst assembleStream_loop.simps) simp
    also have "\<dots> = (res @ (case chunks a i of None \<Rightarrow> [] | Some d \<Rightarrow> d))
                      @ concat (map (\<lambda>k. case chunks a (of_nat k) of None \<Rightarrow> [] | Some d \<Rightarrow> d)
                                  [unat (i + 1) ..< unat ?n])"
      using lt by (intro "1.IH" [OF True]) (simp add: s)
    finally show ?thesis by (simp add: u s)
  next
    case False
    with "1.prems" have "unat i = unat ?n" by (simp add: word_less_nat_alt)
    with False show ?thesis by (subst assembleStream_loop.simps) simp
  qed
qed

lemma assembleStream_eq:
  "unat (TotalSize (header a)) \<le> maxAlloc \<Longrightarrow>
   assembleStream a
     = Inr (concat (map (\<lambda>k. case chunks a (of_nat k) of None \<Rightarrow> [] | Some d \<Rightarrow> d)
                      [0 ..< unat (TotalChunks (header a))]))"
  using assembleStream_loop_eq [of 0 a "[]"] by (simp add: assembleStream_def)

lemma assembleStream_panic:
  "maxAlloc < unat (TotalSize (header a)) \<Longrightarrow> assembleStream a = Inl Panic"
  by (simp add: assembleStream_def)

lemma addChunk_incomplete:
  assumes act: "activeStreams p i = Some a"
    and fresh: "received a = 0"
    and len: "length (cs @ [c]) = unat (TotalChunks (header a))"
    and k: "k < length cs"
  shows "fst (addChunk (fold (\<lambda>c p. snd (addChunk p i c)) (take k cs) p) i (cs ! k))
           = Inr (False, [])"
proof -
  let ?n = "TotalChunks (header a)"
  let ?pk = "fold (\<lambda>c p. snd (addChunk p i c)) (take k cs) p"
  let ?ak = "a\<lparr>chunks := fold (\<lambda>c m. m(ChunkIndex c \<mapsto> Data c)) (take k cs) (chunks a),
               received := received a + of_nat (length (take k cs))\<rparr>"
  have pk: "activeStreams ?pk i = Some ?ak" by (rule fold_addChunk [OF act])
  have "unat ?n < 2 ^ 32" using unsigned_less [of ?n, where ?'a = nat] by simp
  with len k have "Suc k < 4294967296" by simp
  then have "unat (of_nat (Suc k) :: uint32) = Suc k" by (rule unat_of_nat32)
  moreover have "Suc k \<noteq> unat ?n" using len k by simp
  ultimately have "(of_nat (Suc k) :: uint32) \<noteq> ?n" by metis
  then have "received ?ak + 1 \<noteq> TotalChunks (header ?ak)"
    using fresh k by (simp add: add.commute)
  then show ?thesis
    by (simp add: addChunk_Some [OF pk] Let_def)
qed

text \<open>
  Claim C4. Let a stream assembler exist for the message id. A chunk whose index is
  already in the assembler's chunk map makes \<open>addChunk\<close> overwrite the data stored for
  that index and still add 1 to the \<open>received\<close> counter. Consequently, starting from a
  fresh assembler (no chunk, counter 0), after as many chunk events as the header's
  \<open>TotalChunks\<close>, of which two at least carry the same index, the counter equals
  \<open>TotalChunks\<close> although some index below \<open>TotalChunks\<close> is absent from the chunk map.
  Every event but the last returns \<open>(false, nil)\<close>, and the last \<open>addChunk\<close> takes its
  completion branch: when the header's \<open>TotalSize\<close> is within the allocation limit it
  reports the stream complete and returns the chunks that are present, joined in index
  order; otherwise it panics in \<open>assembleStream\<close>.
\<close>

theorem C4_duplicate_chunks:
  assumes "activeStreams p i = Some a"
  shows "(ChunkIndex c \<in> dom (chunks a) \<longrightarrow>
           (\<exists>r a'. addChunk p i c = (r, p\<lparr>activeStreams := (activeStreams p)(i \<mapsto> a')\<rparr>) \<and>
                    chunks a' = (chunks a)(ChunkIndex c \<mapsto> Data c) \<and>
                    received a' = received a + 1 \<and> header a' = header a)) \<and>
         (chunks a = Map.empty \<and> received a = 0 \<and>
          length (cs @ [c]) = unat (TotalChunks (header a)) \<and>
          \<not> distinct (map ChunkIndex (cs @ [c])) \<longrightarrow>
           (\<forall>k<length cs.
              fst (addChunk (fold (\<lambda>c p. snd (addChunk p i c)) (take k cs) p) i (cs ! k))
                = Inr (False, [])) \<and>
           (\<exists>a' p'. addChunk (fold (\<lambda>c p. snd (addChunk p i c)) cs p) i c
                       = (if unat (TotalSize (header a)) \<le> maxAlloc
                          then Inr (True,
                                 concat (map (\<lambda>k. case fold (\<lambda>c m. m(ChunkIndex c \<mapsto> Data c))
                                                           (cs @ [c]) Map.empty (of_nat k) of
                                                     None \<Rightarrow> [] | Some d \<Rightarrow> d)
                                           [0 ..< unat (TotalChunks (header a))]))
                          else Inl Panic, p') \<and>
                    activeStreams p' i = Some a' \<and> header a' = header a \<and>
                    chunks a' = fold (\<lambda>c m. m(ChunkIndex c \<mapsto> Data c)) (cs @ [c]) Map.empty \<and>
                    received a' = TotalChunks (header a) \<and>
                    (\<exists>j. j < TotalChunks (header a) \<and> chunks a' j = None)))"
proof (intro conjI impI)
  assume "ChunkIndex c \<in> dom (chunks a)"
  show "\<exists>r a'. addChunk p i c = (r, p\<lparr>activeStreams := (activeStreams p)(i \<mapsto> a')\<rparr>) \<and>
                    chunks a' = (chunks a)(ChunkIndex c \<mapsto> Data c) \<and>
                    received a' = received a + 1 \<and> header a' = header a"
    unfolding addChunk_Some [OF assms] Let_def
    by (intro exI [of _ "a\<lparr>chunks := (chunks a)(ChunkIndex c \<mapsto> Data c),
                           received := received a + 1\<rparr>"] exI) simp
next
  assume h: "chunks a = Map.empty \<and> received a = 0 \<and>
          length (cs @ [c]) = unat (TotalChunks (header a)) \<and>
          \<not> distinct (map ChunkIndex (cs @ [c]))"
  show "\<forall>k<length cs.
          fst (addChunk (fold (\<lambda>c p. snd (addChunk p i c)) (take k cs) p) i (cs ! k))
            = Inr (False, [])"
    using addChunk_incomplete [OF assms, of cs c] h by blast
  let ?n = "TotalChunks (header a)"
  let ?m = "fold (\<lambda>c m. m(ChunkIndex c \<mapsto> Data c)) (cs @ [c]) Map.empty"
  let ?p1 = "fold (\<lambda>c p. snd (addChunk p i c)) cs p"
  let ?a1 = "a\<lparr>chunks := fold (\<lambda>c m. m(ChunkIndex c \<mapsto> Data c)) cs (chunks a),
               received := received a + of_nat (length cs)\<rparr>"
  let ?a2 = "?a1\<lparr>chunks := (chunks ?a1)(ChunkIndex c \<mapsto> Data c), received := received ?a1 + 1\<rparr>"
  have p1: "activeStreams ?p1 i = Some ?a1" by (rule fold_addChunk [OF assms])
  have "Suc (length cs) = unat ?n" using h by simp
  then have "(of_nat (Suc (length cs)) :: uint32) = of_nat (unat ?n)" by (simp only:)
  then have fin: "received ?a1 + 1 = TotalChunks (header ?a1)" using h by (simp add: add.commute)
  have ch: "chunks ?a2 = ?m" using h by simp
  have "dom ?m = ChunkIndex ` set (cs @ [c])"
    by (simp only: dom_fold_chunks) simp
  moreover obtain j where "j < ?n" and "j \<notin> ChunkIndex ` set (cs @ [c])"
    using missing_index [of "cs @ [c]" ?n] h by blast
  ultimately have j: "\<exists>j. j < ?n \<and> chunks ?a2 j = None" unfolding ch by blast
  let ?p2 = "?p1\<lparr>activeStreams := (activeStreams ?p1)(i \<mapsto> ?a2)\<rparr>"
  let ?res = "if unat (TotalSize (header a)) \<le> maxAlloc
              then Inr (True,
                     concat (map (\<lambda>k. case ?m (of_nat k) of None \<Rightarrow> [] | Some d \<Rightarrow> d)
                               [0 ..< unat ?n]))
              else Inl Panic"
  have asm: "assembleStream ?a2
               = (if unat (TotalSize (header a)) \<le> maxAlloc
                  then Inr (concat (map (\<lambda>k. case ?m (of_nat k) of None \<Rightarrow> [] | Some d \<Rightarrow> d)
                                      [0 ..< unat ?n]))
                  else Inl Panic)"
  proof (cases "unat (TotalSize (header a)) \<le> maxAlloc")
    case True
    then have "unat (TotalSize (header ?a2)) \<le> maxAlloc" by simp
    from assembleStream_eq [OF this] True show ?thesis by (simp only: ch if_True) simp
  next
    case False
    then have "maxAlloc < unat (TotalSize (header ?a2))" by simp
    from assembleStream_panic [OF this] False show ?thesis by (simp only: if_False)
  qed
  have res: "addChunk ?p1 i c = (?res, ?p2)"
    unfolding addChunk_Some [OF p1] Let_def asm using fin by simp
  have act: "activeStreams ?p2 i = Some ?a2" by simp
  have hd: "header ?a2 = header a" by simp
  have rc: "received ?a2 = ?n" using fin by simp
  show "\<exists>a' p'. addChunk ?p1 i c = (?res, p') \<and>
                    activeStreams p' i = Some a' \<and> header a' = header a \<and>
                    chunks a' = ?m \<and>
                    received a' = TotalChunks (header a) \<and>
                    (\<exists>j. j < TotalChunks (header a) \<and> chunks a' j = None)"
    apply (rule exI [of _ ?a2], rule exI [of _ ?p2])
    using res act hd ch rc j by blast
qed

theorem C4_duplicate_chunks_witness:
  "(\<exists>r a'. addChunk
       (\<lparr>conn = \<lparr>incoming = [], written = [], write_failure = None\<rparr>, opts = None, nextID = 1,
          streamConfig = DefaultStreamConfig,
          activeStreams = [7 \<mapsto> \<lparr>header = \<lparr>OriginalType = 3, TotalSize = 4, TotalChunks = 2\<rparr>,
                                 chunks = [0 \<mapsto> [1, 2]], received = 1\<rparr>]\<rparr> :: unit Protocol)
       7 \<lparr>ChunkIndex = 0, Data = [9, 9]\<rparr>
      = (r, \<lparr>conn = \<lparr>incoming = [], written = [], write_failure = None\<rparr>, opts = None, nextID = 1,
             streamConfig = DefaultStreamConfig,
             activeStreams = [7 \<mapsto> \<lparr>header = \<lparr>OriginalType = 3, TotalSize = 4, TotalChunks = 2\<rparr>,
                                 chunks = [0 \<mapsto> [1, 2]], received = 1\<rparr>]\<rparr>
            \<lparr>activeStreams := [7 \<mapsto> \<lparr>header = \<lparr>OriginalType = 3, TotalSize = 4, TotalChunks = 2\<rparr>,
                                 chunks = [0 \<mapsto> [1, 2]], received = 1\<rparr>](7 \<mapsto> a')\<rparr>) \<and>
      chunks a' = [0 \<mapsto> [9, 9]] \<and> received a' = 2) \<and>
   (\<exists>a' p'. addChunk
       (fold (\<lambda>c p. snd (addChunk p 7 c)) [\<lparr>ChunkIndex = 0, Data = [1, 2]\<rparr>]
          (\<lparr>conn = \<lparr>incoming = [], written = [], write_failure = None\<rparr>, opts = None, nextID = 1,
             streamConfig = DefaultStreamConfig,
             activeStreams = [7 \<mapsto> \<lparr>header = \<lparr>OriginalType = 3, TotalSize = 4, TotalChunks = 2\<rparr>,
                                    chunks = Map.empty, received = 0\<rparr>]\<rparr> :: unit Protocol))
       7 \<lparr>ChunkIndex = 0, Data = [9, 9]\<rparr>
      = (Inr (True, [9, 9]), p') \<and>
      activeStreams p' 7 = Some a' \<and> chunks a' = [0 \<mapsto> [9, 9]] \<and> received a' = 2 \<and>
      (\<exists>j. j < 2 \<and> chunks a' j = None)) \<and>
   (\<exists>a' p'. addChunk
       (fold (\<lambda>c p. snd (addChunk p 7 c)) [\<lparr>ChunkIndex = 0, Data = [1, 2]\<rparr>]
          (\<lparr>conn = \<lparr>incoming = [], written = [], write_failure = None\<rparr>, opts = None, nextID = 1,
             streamConfig = DefaultStreamConfig,
             activeStreams = [7 \<mapsto> \<lparr>header = \<lparr>OriginalType = 3, TotalSize = 9223372036854775808,
                                              TotalChunks = 2\<rparr>,
                                    chunks = Map.empty, received = 0\<rparr>]\<rparr> :: unit Protocol))
       7 \<lparr>ChunkIndex = 0, Data = [9, 9]\<rparr>
      = (Inl Panic, p') \<and>
      activeStreams p' 7 = Some a' \<and> chunks a' = [0 \<mapsto> [9, 9]] \<and> received a' = 2 \<and>
      (\<exists>j. j < 2 \<and> chunks a' j = None)) \<and>
   fst (addChunk
          (\<lparr>conn = \<lparr>incoming = [], written = [], write_failure = None\<rparr>, opts = None, nextID = 1,
             streamConfig = DefaultStreamConfig,
             activeStreams = [7 \<mapsto> \<lparr>header = \<lparr>OriginalType = 3, TotalSize = 4, TotalChunks = 2\<rparr>,
                                    chunks = Map.empty, received = 0\<rparr>]\<rparr> :: unit Protocol)
          7 \<lparr>ChunkIndex = 0, Data = [1, 2]\<rparr>)
     = Inr (False, [])"
proof -
  let ?h = "\<lparr>OriginalType = 3, TotalSize = 4, TotalChunks = 2\<rparr>"
  let ?H = "\<lparr>OriginalType = 3, TotalSize = 9223372036854775808, TotalChunks = 2\<rparr>"
  let ?aA = "\<lparr>header = ?h, chunks = [0 \<mapsto> [1, 2]], received = 1\<rparr>"
  let ?aB = "\<lambda>h. \<lparr>header = h, chunks = Map.empty, received = 0\<rparr>"
  let ?pA = "\<lparr>conn = \<lparr>incoming = [], written = [], write_failure = None\<rparr>, opts = None, nextID = 1,
              streamConfig = DefaultStreamConfig, activeStreams = [7 \<mapsto> ?aA]\<rparr> :: unit Protocol"
  let ?pB = "\<lambda>h. \<lparr>conn = \<lparr>incoming = [], written = [], write_failure = None\<rparr>, opts = None,
              nextID = 1, streamConfig = DefaultStreamConfig,
              activeStreams = [7 \<mapsto> ?aB h]\<rparr> :: unit Protocol"
  let ?first = "\<lparr>ChunkIndex = 0, Data = [1, 2]\<rparr>"
  let ?c = "\<lparr>ChunkIndex = 0, Data = [9, 9]\<rparr>"
  have A: "activeStreams ?pA 7 = Some ?aA" and B: "activeStreams (?pB h) 7 = Some (?aB h)" for h
    by simp_all
  have u: "[0..<2] = [0, Suc 0]" by (simp add: numeral_2_eq_2)
  have hA: "ChunkIndex ?c \<in> dom (chunks ?aA)" by simp
  have hB: "chunks (?aB h) = Map.empty \<and> received (?aB h) = 0 \<and>
            length ([?first] @ [?c]) = unat (TotalChunks (header (?aB h))) \<and>
            \<not> distinct (map ChunkIndex ([?first] @ [?c]))"
    if "TotalChunks h = 2" for h
    using that by simp
  from C4_duplicate_chunks [OF A, of ?c, THEN conjunct1, rule_format, OF hA]
  have 1: "\<exists>r a'. addChunk ?pA 7 ?c = (r, ?pA\<lparr>activeStreams := [7 \<mapsto> ?aA](7 \<mapsto> a')\<rparr>) \<and>
      chunks a' = [0 \<mapsto> [9, 9]] \<and> received a' = 2"
    by (simp; blast)
  from C4_duplicate_chunks [OF B [of ?h], where c = ?c and cs = "[?first]", THEN conjunct2, rule_format, OF hB]
  have 2: "\<exists>a' p'. addChunk (fold (\<lambda>c p. snd (addChunk p 7 c)) [?first] (?pB ?h)) 7 ?c
                       = (Inr (True, [9, 9]), p') \<and>
      activeStreams p' 7 = Some a' \<and> chunks a' = [0 \<mapsto> [9, 9]] \<and> received a' = 2 \<and>
      (\<exists>j. j < 2 \<and> chunks a' j = None)"
    by (simp add: maxAlloc_def u; blast)
  from C4_duplicate_chunks [OF B [of ?H], where c = ?c and cs = "[?first]", THEN conjunct2, rule_format, OF hB]
  have 3: "\<exists>a' p'. addChunk (fold (\<lambda>c p. snd (addChunk p 7 c)) [?first] (?pB ?H)) 7 ?c
                       = (Inl Panic, p') \<and>
      activeStreams p' 7 = Some a' \<and> chunks a' = [0 \<mapsto> [9, 9]] \<and> received a' = 2 \<and>
      (\<exists>j. j < 2 \<and> chunks a' j = None)"
    by (simp add: maxAlloc_def u; blast)
  from C4_duplicate_chunks [OF B [of ?h], where c = ?c and cs = "[?first]",
      THEN conjunct2, rule_format, OF hB, THEN conjunct1, rule_format, of 0]
  have 4: "fst (addChunk (?pB ?h) 7 ?first) = Inr (False, [])"
    by simp
  from 1 2 3 4 show ?thesis by (intro conjI)
qed

section \<open>Streamed send\<close>

lemma wrap64_id: "- (2 ^ 63) \<le> x \<Longrightarrow> x < 2 ^ 63 \<Longrightarrow> wrap64 x = x"
  by (simp add: wrap64_def)

lemma go_div_pos: "0 \<le> a \<Longrightarrow> 0 < b \<Longrightarrow> a < 2 ^ 63 \<Longrightarrow> go_div a b = a div b"
proof -
  assume a: "0 \<le> a" and b: "0 < b" and l: "a < 2 ^ 63"
  have "sgn a * sgn b * (\<bar>a\<bar> div \<bar>b\<bar>) = a div b"
    using a b by (cases "a = 0") simp_all
  moreover have "0 \<le> a div b" using a b by (simp add: pos_imp_zdiv_nonneg_iff)
  moreover have "a div b \<le> a"
    using zdiv_mono2 [of a 1 b] a b by simp
  ultimately show ?thesis using l by (simp add: go_div_def wrap64_id)
qed

lemma sendDirect_ok:
  "MarshalMessage um t i pl (opts p) = Inr d \<Longrightarrow> write_failure (conn p) = None \<Longrightarrow>
   sendDirect um p t i pl
     = (None, p\<lparr>conn := (conn p)\<lparr>written := written (conn p) @ PutUint32 (of_nat (length d)) @ d\<rparr>\<rparr>)"
  by (simp add: sendDirect_def conn_Write_def Let_def)

text \<open>\<open>sendDirect\<close> returns the error of the first write that fails; when the second
  write fails, the length prefix has already been written.\<close>

lemma sendDirect_write_error:
  assumes "MarshalMessage um t i pl (opts p) = Inr d"
  shows "write_failure (conn p) = Some (0, e) \<Longrightarrow> sendDirect um p t i pl = (Some e, p)"
    and "write_failure (conn p) = Some (1, e) \<Longrightarrow>
         sendDirect um p t i pl
           = (Some e, p\<lparr>conn := (conn p)\<lparr>written := written (conn p) @ PutUint32 (of_nat (length d)),
                                            write_failure := Some (0, e)\<rparr>\<rparr>)"
  using assms by (simp_all add: sendDirect_def conn_Write_def Let_def)

lemma sendDirect_err:
  "MarshalMessage um t i pl (opts p) = Inl e \<Longrightarrow> sendDirect um p t i pl = (Some e, p)"
  by (simp add: sendDirect_def)

lemma MarshalMessage_total:
  assumes "MarshalPayload um pl = Inr b" and "length b \<le> MaxPayloadSize"
    and "\<forall>sign m. (case mo of None \<Rightarrow> None | Some opt \<Rightarrow> Signer opt) = Some sign
                  \<longrightarrow> (\<exists>s. sign m = Inr s)"
  shows "\<exists>d. MarshalMessage um t i pl mo = Inr d"
proof (cases "case mo of None \<Rightarrow> None | Some opt \<Rightarrow> Signer opt")
  case None
  then show ?thesis by (simp add: MarshalMessage_wire [OF assms(1,2)])
next
  case (Some sign)
  with assms(3) obtain s where "sign ([t] @ PutUint32 i @ PutUint32 (of_nat (length b)) @ b) = Inr s"
    by blast
  with Some show ?thesis by (simp add: MarshalMessage_wire [OF assms(1,2)])
qed

lemma MarshalMessage_too_large:
  "MarshalPayload um pl = Inr b \<Longrightarrow> MaxPayloadSize < length b \<Longrightarrow>
   MarshalMessage um t i pl mo = Inl ErrPayloadTooLarge"
  by (simp add: MarshalMessage_def)

lemma take_chunks: "concat (map (\<lambda>k. take c (drop (k * c) xs)) [0..<n]) = take (n * c) xs"
proof (induction n)
  case 0
  then show ?case by simp
next
  case (Suc n)
  have "Suc n * c = n * c + c" by simp
  then have "take (Suc n * c) xs = take (n * c) xs @ take c (drop (n * c) xs)"
    by (simp only: take_add)
  with Suc show ?case by simp
qed

lemma Data_spec_chunk: "Data (spec_chunk pb c k) = take c (drop (k * c) pb)"
proof -
  have "(k + 1) * c = k * c + c" by simp
  then have "min ((k + 1) * c) (length pb) - k * c = min c (length pb - k * c)"
    by (simp only:)
  then show ?thesis by (simp add: spec_chunk_def min_def)
qed

lemma nat_slice_len:
  "nat ((if int L < int e then int L else int e) - int s) = min e L - s"
  by (simp add: min_def) arith

lemma slice_in_range:
  "s < L \<Longrightarrow> s \<le> e \<Longrightarrow>
   \<not> \<not> (0 \<le> int s \<and> int s \<le> (if int L < int e then int L else int e) \<and>
          (if int L < int e then int L else int e) \<le> int L)"
  by auto

lemma ceil_div_bounds:
  assumes "0 < (c::nat)" and "N = (L + c - 1) div c"
  shows "L \<le> N * c" and "k < N \<Longrightarrow> k * c < L"
proof -
  have "(L + c - 1) mod c < c" using assms(1) by simp
  moreover have e: "N * c + (L + c - 1) mod c = L + c - 1" by (simp add: assms(2))
  ultimately show "L \<le> N * c" by linarith
  assume "k < N"
  then have "Suc k \<le> N" by simp
  then have "Suc k * c \<le> N * c" by (rule mult_le_mono1)
  with e have "k * c + c \<le> L + c - 1" by simp
  with assms(1) show "k * c < L" by linarith
qed

lemma sendStreamed_loop_ok:
  assumes c: "0 < c" and N: "N < 4294967296"
    and bound: "\<forall>k<N. k * c < length pb" and L: "int (length pb) + int c < 2 ^ 63"
    and len: "length ds = N"
    and ds: "\<forall>k<N. MarshalMessage um MessageTypeStreamChunk i (PStreamChunk (spec_chunk pb c k)) mo
                      = Inr (ds ! k)"
  shows "k \<le> N \<Longrightarrow> opts p = mo \<Longrightarrow> write_failure (conn p) = None \<Longrightarrow>
     sendStreamed_loop um p i pb (int c) (of_nat N) (of_nat k)
       = (None, p\<lparr>conn := (conn p)\<lparr>written := written (conn p)
                   @ concat (map (\<lambda>d. PutUint32 (of_nat (length d)) @ d) (drop k ds))\<rparr>\<rparr>)"
proof (induction "N - k" arbitrary: k p)
  case 0
  then have "k = N" by simp
  then show ?case using len by (subst sendStreamed_loop.simps) simp
next
  case (Suc n)
  then have kN: "k < N" by simp
  with N have k32: "k < 4294967296" by simp
  have lt: "(of_nat k :: uint32) < of_nat N"
    using kN N k32 by (simp add: word_less_nat_alt unat_of_nat32)
  have ui: "uint (of_nat k :: uint32) = int k"
    using unat_of_nat32 [OF k32] by (metis uint_nat)
  from bound kN have kc: "k * c < length pb" by blast
  have kc': "int k * int c < int (length pb)" and kc0: "0 \<le> int k * int c"
    using kc by (simp_all flip: of_nat_mult)
  have "wrap64 (int k * int c) = int k * int c"
    by (rule wrap64_id) (use kc' kc0 L in linarith)+
  then have start: "wrap64 (uint (of_nat k :: uint32) * int c) = int (k * c)"
    by (simp add: ui)
  have "wrap64 (int k * int c + int c) = int k * int c + int c"
    by (rule wrap64_id) (use kc' kc0 L in linarith)+
  then have end0: "wrap64 (int (k * c) + int c) = int (k * c + c)"
    by simp
  have chunk: "\<lparr>ChunkIndex = of_nat k,
                Data = take (nat ((if int (length pb) < int (k * c + c) then int (length pb)
                                   else int (k * c + c)) - int (k * c)))
                         (drop (nat (int (k * c))) pb)\<rparr>
               = spec_chunk pb c k"
    by (simp only: nat_slice_len nat_int spec_chunk_def) (simp add: add.commute)
  have ok: "\<not> \<not> (0 \<le> int (k * c) \<and>
              int (k * c) \<le> (if int (length pb) < int (k * c + c) then int (length pb)
                                else int (k * c + c)) \<and>
              (if int (length pb) < int (k * c + c) then int (length pb) else int (k * c + c))
                \<le> int (length pb))"
    by (rule slice_in_range) (use kc in simp_all)
  let ?p' = "p\<lparr>conn := (conn p)\<lparr>written := written (conn p)
                @ PutUint32 (of_nat (length (ds ! k))) @ ds ! k\<rparr>\<rparr>"
  have sd: "sendDirect um p MessageTypeStreamChunk i (PStreamChunk (spec_chunk pb c k)) = (None, ?p')"
    using ds kN Suc.prems(2,3) by (intro sendDirect_ok) simp_all
  have step: "sendStreamed_loop um p i pb (int c) (of_nat N) (of_nat k)
                = sendStreamed_loop um ?p' i pb (int c) (of_nat N) (of_nat k + 1)"
    by (subst sendStreamed_loop.simps)
       (simp only: lt if_True Let_def start end0 chunk ok if_False sd prod.case option.case)
  have "sendStreamed_loop um ?p' i pb (int c) (of_nat N) (of_nat (Suc k))
          = (None, ?p'\<lparr>conn := (conn ?p')\<lparr>written := written (conn ?p')
                      @ concat (map (\<lambda>d. PutUint32 (of_nat (length d)) @ d) (drop (Suc k) ds))\<rparr>\<rparr>)"
    using Suc.hyps(2) kN Suc.prems(2,3) by (intro Suc.hyps(1)) simp_all
  moreover have "drop k ds = ds ! k # drop (Suc k) ds"
    using kN len by (simp add: Cons_nth_drop_Suc)
  ultimately show ?case unfolding step by (simp add: add.commute)
qed

lemma total_chunks_eq:
  assumes c: "0 < c" and L: "int L + int c < 2 ^ 63"
  shows "go_div (wrap64 (wrap64 (int L + int c) - 1)) (int c) = int ((L + c - 1) div c)"
proof -
  have a: "wrap64 (int L + int c) = int L + int c"
    by (rule wrap64_id) (use L in linarith)+
  have b: "wrap64 (int L + int c - 1) = int L + int c - 1"
    by (rule wrap64_id) (use L c in linarith)+
  have d: "int L + int c - 1 = int (L + c - 1)" using c by (simp add: of_nat_diff)
  have "go_div (int (L + c - 1)) (int c) = int (L + c - 1) div int c"
    by (rule go_div_pos) (use c L d in linarith)+
  moreover have "wrap64 (wrap64 (int L + int c) - 1) = int (L + c - 1)"
    using b by (simp only: a d)
  ultimately show ?thesis by (simp only: zdiv_int)
qed

text \<open>\<open>SendMessage\<close> hands the serialized payload to \<open>sendStreamed\<close> when streaming is
  enabled and the payload is at least as long as the threshold.\<close>

lemma SendMessage_streamed:
  "MarshalPayload um payload = Inr pb \<Longrightarrow> Enabled (streamConfig p) \<Longrightarrow>
   Threshold (streamConfig p) \<le> int (length pb) \<Longrightarrow>
   SendMessage um p t i payload = sendStreamed um p t i pb"
  by (simp add: SendMessage_def)

text \<open>
  Claim C3 (as amended). Let the chunk size \<open>c\<close> be positive, let
  \<open>N = ceil(L / c)\<close> for a payload of length \<open>L\<close> fit a \<open>uint32\<close>, let \<open>L + c\<close> be below
  \<open>2 ^ 63\<close> (the \<open>int\<close> arithmetic of \<open>sendStreamed\<close> does not overflow), let the
  serialized form of every chunk be at most 100 MiB, let a configured signer not fail,
  and let the transport accept every write. Then
  \<open>sendStreamed\<close> returns nil after sending, in this order and all with the same
  message id: one message of type 250 whose payload is
  \<open>StreamHeader{original_type, total_size = L, total_chunks = N}\<close>; for each \<open>k\<close> below \<open>N\<close>
  one message of type 251 whose payload is the \<open>k\<close>-th chunk of the specification; one
  message of type 252 with an empty payload. Each is written with its four-byte length
  prefix, and the data of the chunks, joined in index order, is the payload.
\<close>

theorem C3_streamed_send:
  assumes cs: "ChunkSize (streamConfig p) = int c" and c: "0 < c"
    and N: "N = (length pb + c - 1) div c" and N32: "N < 4294967296"
    and L: "int (length pb) + int c < 2 ^ 63"
    and fit: "\<forall>k<N. length (StreamChunk_Marshal (spec_chunk pb c k)) \<le> MaxPayloadSize"
    and sg: "\<forall>sign m. (case opts p of None \<Rightarrow> None | Some opt \<Rightarrow> Signer opt) = Some sign
                  \<longrightarrow> (\<exists>s. sign m = Inr s)"
    and wf: "write_failure (conn p) = None"
  shows "\<exists>d0 ds dE.
     MarshalMessage um MessageTypeStreamStart i
       (PStreamHeader \<lparr>OriginalType = t, TotalSize = of_nat (length pb), TotalChunks = of_nat N\<rparr>)
       (opts p) = Inr d0 \<and>
     length ds = N \<and>
     (\<forall>k<N. MarshalMessage um MessageTypeStreamChunk i (PStreamChunk (spec_chunk pb c k)) (opts p)
               = Inr (ds ! k)) \<and>
     MarshalMessage um MessageTypeStreamEnd i (PBytes []) (opts p) = Inr dE \<and>
     sendStreamed um p t i pb
       = (None, p\<lparr>conn := (conn p)\<lparr>written := written (conn p)
                  @ (PutUint32 (of_nat (length d0)) @ d0)
                  @ concat (map (\<lambda>d. PutUint32 (of_nat (length d)) @ d) ds)
                  @ (PutUint32 (of_nat (length dE)) @ dE)\<rparr>\<rparr>) \<and>
     concat (map (\<lambda>k. Data (spec_chunk pb c k)) [0..<N]) = pb"
proof -
  let ?hdr = "\<lparr>OriginalType = t, TotalSize = of_nat (length pb), TotalChunks = of_nat N\<rparr>"
  have "length (StreamHeader_Marshal ?hdr) \<le> MaxPayloadSize"
    using length_StreamHeader_Marshal [of ?hdr] by (simp add: MaxPayloadSize_def)
  moreover have "MarshalPayload um (PStreamHeader ?hdr) = Inr (StreamHeader_Marshal ?hdr)"
    by (simp add: MarshalPayload_def)
  ultimately obtain d0
    where d0: "MarshalMessage um MessageTypeStreamStart i (PStreamHeader ?hdr) (opts p) = Inr d0"
    using MarshalMessage_total [OF _ _ sg] by blast
  have "MarshalPayload um (PBytes []) = Inr []" by (simp add: MarshalPayload_def)
  moreover have "length ([] :: byte list) \<le> MaxPayloadSize" by simp
  ultimately obtain dE
    where dE: "MarshalMessage um MessageTypeStreamEnd i (PBytes []) (opts p) = Inr dE"
    using MarshalMessage_total [OF _ _ sg] by blast
  have "\<exists>d. MarshalMessage um MessageTypeStreamChunk i (PStreamChunk (spec_chunk pb c k)) (opts p)
               = Inr d" if "k < N" for k
  proof -
    have "MarshalPayload um (PStreamChunk (spec_chunk pb c k))
            = Inr (StreamChunk_Marshal (spec_chunk pb c k))"
      by (simp add: MarshalPayload_def)
    moreover have "length (StreamChunk_Marshal (spec_chunk pb c k)) \<le> MaxPayloadSize"
      using fit that by blast
    ultimately show ?thesis using MarshalMessage_total [OF _ _ sg] by blast
  qed
  then obtain f where f: "\<forall>k<N. MarshalMessage um MessageTypeStreamChunk i
                                    (PStreamChunk (spec_chunk pb c k)) (opts p) = Inr (f k)"
    by metis
  define ds where "ds = map f [0..<N]"
  have len: "length ds = N" by (simp add: ds_def)
  have ds: "\<forall>k<N. MarshalMessage um MessageTypeStreamChunk i (PStreamChunk (spec_chunk pb c k)) (opts p)
                    = Inr (ds ! k)"
    using f by (simp add: ds_def)
  have bound: "\<forall>k<N. k * c < length pb"
    using ceil_div_bounds(2) [OF c N] by blast
  let ?fr = "\<lambda>d. PutUint32 (of_nat (length d)) @ d"
  let ?p1 = "p\<lparr>conn := (conn p)\<lparr>written := written (conn p) @ ?fr d0\<rparr>\<rparr>"
  let ?p2 = "?p1\<lparr>conn := (conn ?p1)\<lparr>written := written (conn ?p1) @ concat (map ?fr (drop 0 ds))\<rparr>\<rparr>"
  let ?p3 = "?p2\<lparr>conn := (conn ?p2)\<lparr>written := written (conn ?p2) @ ?fr dE\<rparr>\<rparr>"
  have s1: "sendDirect um p MessageTypeStreamStart i (PStreamHeader ?hdr) = (None, ?p1)"
    by (rule sendDirect_ok [OF d0 wf])
  have s2: "sendStreamed_loop um ?p1 i pb (int c) (of_nat N) 0 = (None, ?p2)"
    using sendStreamed_loop_ok [OF c N32 bound L len ds, of 0 ?p1] wf by simp
  have s3: "sendDirect um ?p2 MessageTypeStreamEnd i (PBytes []) = (None, ?p3)"
    by (rule sendDirect_ok) (simp_all add: dE wf)
  have tc: "(word_of_int (go_div (wrap64 (wrap64 (int (length pb) + int c) - 1)) (int c)) :: uint32)
              = of_nat N"
    by (simp only: total_chunks_eq [OF c L] N of_int_of_nat_eq)
  have c0: "int c \<noteq> 0" using c by simp
  have "sendStreamed um p t i pb = (None, ?p3)"
    unfolding sendStreamed_def
    by (simp only: cs Let_def c0 if_False tc s1 s2 s3 prod.case option.case)
  moreover have "concat (map (\<lambda>k. Data (spec_chunk pb c k)) [0..<N]) = pb"
    using ceil_div_bounds(1) [OF c N] by (simp add: Data_spec_chunk take_chunks)
  ultimately show ?thesis
    using d0 len ds dE
    by (intro exI [of _ d0] exI [of _ ds] exI [of _ dE]) simp
qed

lemma length_Data_spec_chunk: "length (Data (spec_chunk pb c k)) \<le> c"
  by (simp add: Data_spec_chunk)

theorem C3_streamed_send_witness:
  "\<exists>d0 ds dE.
     MarshalMessage (\<lambda>u::unit. Inr []) MessageTypeStreamStart 7
       (PStreamHeader \<lparr>OriginalType = 3, TotalSize = of_nat (length [1, 2, 3, 4, 5 :: byte]),
                       TotalChunks = of_nat 3\<rparr>)
       (opts (\<lparr>conn = \<lparr>incoming = [], written = [], write_failure = None\<rparr>, opts = None, nextID = 1,
               streamConfig = \<lparr>Threshold = 4, ChunkSize = 2, Enabled = True\<rparr>,
               activeStreams = Map.empty\<rparr> :: unit Protocol)) = Inr d0 \<and>
     length ds = 3 \<and>
     MarshalMessage (\<lambda>u::unit. Inr []) MessageTypeStreamEnd 7 (PBytes []) None = Inr dE \<and>
     sendStreamed (\<lambda>u::unit. Inr [])
        (\<lparr>conn = \<lparr>incoming = [], written = [], write_failure = None\<rparr>, opts = None, nextID = 1,
          streamConfig = \<lparr>Threshold = 4, ChunkSize = 2, Enabled = True\<rparr>,
          activeStreams = Map.empty\<rparr> :: unit Protocol) 3 7 [1, 2, 3, 4, 5]
       = (None, \<lparr>conn = \<lparr>incoming = [], written = (PutUint32 (of_nat (length d0)) @ d0)
                  @ concat (map (\<lambda>d. PutUint32 (of_nat (length d)) @ d) ds)
                  @ (PutUint32 (of_nat (length dE)) @ dE), write_failure = None\<rparr>,
                 opts = None, nextID = 1,
                 streamConfig = \<lparr>Threshold = 4, ChunkSize = 2, Enabled = True\<rparr>,
                 activeStreams = Map.empty\<rparr>) \<and>
     concat (map (\<lambda>k. Data (spec_chunk [1, 2, 3, 4, 5] 2 k)) [0..<3]) = [1, 2, 3, 4, 5]"
proof -
  let ?p = "\<lparr>conn = \<lparr>incoming = [], written = [], write_failure = None\<rparr>, opts = None, nextID = 1,
             streamConfig = \<lparr>Threshold = 4, ChunkSize = 2, Enabled = True\<rparr>,
             activeStreams = Map.empty\<rparr> :: unit Protocol"
  let ?pb = "[1, 2, 3, 4, 5] :: byte list"
  have h1: "ChunkSize (streamConfig ?p) = int 2" by simp
  have h2: "0 < (2::nat)" by simp
  have h3: "(3::nat) = (length ?pb + 2 - 1) div 2" by simp
  have h4: "(3::nat) < 4294967296" by simp
  have h5: "int (length ?pb) + int 2 < 2 ^ 63" by simp
  have h6: "\<forall>k<3. length (StreamChunk_Marshal (spec_chunk ?pb 2 k)) \<le> MaxPayloadSize"
  proof (intro allI impI)
    fix k :: nat
    have "length (StreamChunk_Marshal (spec_chunk ?pb 2 k)) \<le> 2 + 20"
      using length_StreamChunk_Marshal_le [of "spec_chunk ?pb 2 k"] length_Data_spec_chunk [of ?pb 2 k]
      by linarith
    then show "length (StreamChunk_Marshal (spec_chunk ?pb 2 k)) \<le> MaxPayloadSize"
      by (simp add: MaxPayloadSize_def)
  qed
  have h7: "\<forall>sign m. (case opts ?p of None \<Rightarrow> None | Some opt \<Rightarrow> Signer opt) = Some sign
                  \<longrightarrow> (\<exists>s. sign m = Inr s)"
    by simp
  have h8: "write_failure (conn ?p) = None" by simp
  from C3_streamed_send [OF h1 h2 h3 h4 h5 h6 h7 h8, of "\<lambda>u::unit. Inr []" 7 3]
  show ?thesis by (simp; blast)
qed

text \<open>
  The claim as written, for every payload at or above the threshold, fails when a chunk
  does not fit a message: with a chunk size of 100 MiB and a payload of 100 MiB (the
  threshold is 1 MiB), the single chunk serializes to more than 100 MiB, so
  \<open>sendStreamed\<close> writes the message of type 250 and then returns \<open>ErrPayloadTooLarge\<close>;
  no message of type 251 or 252 is sent.
\<close>

theorem C3_counterexample:
  "sendStreamed (\<lambda>u::unit. Inr [])
     (\<lparr>conn = \<lparr>incoming = [], written = [], write_failure = None\<rparr>, opts = None, nextID = 1,
       streamConfig = \<lparr>Threshold = 1048576, ChunkSize = 104857600, Enabled = True\<rparr>,
       activeStreams = Map.empty\<rparr> :: unit Protocol) 3 7 (replicate 104857600 0)
     = (Some ErrPayloadTooLarge,
        \<lparr>conn = \<lparr>incoming = [],
                 written = PutUint32 (of_nat (length (wire_format MessageTypeStreamStart 7
                              (StreamHeader_Marshal \<lparr>OriginalType = 3, TotalSize = 104857600,
                                                     TotalChunks = 1\<rparr>) [])))
                           @ wire_format MessageTypeStreamStart 7
                              (StreamHeader_Marshal \<lparr>OriginalType = 3, TotalSize = 104857600,
                                                     TotalChunks = 1\<rparr>) [],
                 write_failure = None\<rparr>,
         opts = None, nextID = 1,
         streamConfig = \<lparr>Threshold = 1048576, ChunkSize = 104857600, Enabled = True\<rparr>,
         activeStreams = Map.empty\<rparr>)"
proof -
  let ?cfg = "\<lparr>Threshold = 1048576, ChunkSize = 104857600, Enabled = True\<rparr>"
  let ?p = "\<lparr>conn = \<lparr>incoming = [], written = [], write_failure = None\<rparr>, opts = None, nextID = 1,
             streamConfig = ?cfg, activeStreams = Map.empty\<rparr> :: unit Protocol"
  let ?pb = "replicate 104857600 (0 :: byte)"
  let ?hdr = "\<lparr>OriginalType = 3, TotalSize = 104857600, TotalChunks = 1\<rparr>"
  let ?d0 = "wire_format MessageTypeStreamStart 7 (StreamHeader_Marshal ?hdr) []"
  let ?p1 = "?p\<lparr>conn := (conn ?p)\<lparr>written := written (conn ?p) @ PutUint32 (of_nat (length ?d0)) @ ?d0\<rparr>\<rparr>"
  let ?um = "\<lambda>u::unit. Inr []"
  have tc: "go_div (wrap64 (wrap64 (int (length ?pb) + 104857600) - 1)) 104857600 = 1"
    using total_chunks_eq [of 104857600 104857600] by simp
  have mh: "MarshalMessage ?um MessageTypeStreamStart 7 (PStreamHeader ?hdr) (opts ?p) = Inr ?d0"
  proof -
    have "MarshalPayload ?um (PStreamHeader ?hdr) = Inr (StreamHeader_Marshal ?hdr)"
      by (simp add: MarshalPayload_def)
    moreover have "length (StreamHeader_Marshal ?hdr) \<le> MaxPayloadSize"
      using length_StreamHeader_Marshal [of ?hdr] by (simp add: MaxPayloadSize_def)
    ultimately show ?thesis using MarshalMessage_wire [of ?um _ _ MessageTypeStreamStart 7 None]
      by simp
  qed
  have s1: "sendDirect ?um ?p MessageTypeStreamStart 7 (PStreamHeader ?hdr) = (None, ?p1)"
    by (rule sendDirect_ok [OF mh]) simp
  let ?chunk = "\<lparr>ChunkIndex = 0, Data = ?pb\<rparr>"
  have "MarshalPayload ?um (PStreamChunk ?chunk) = Inr (StreamChunk_Marshal ?chunk)"
    by (simp add: MarshalPayload_def)
  moreover have "MaxPayloadSize < length (StreamChunk_Marshal ?chunk)"
    using length_StreamChunk_Marshal_ge [of ?chunk] by (simp add: MaxPayloadSize_def)
  ultimately have "MarshalMessage ?um MessageTypeStreamChunk 7 (PStreamChunk ?chunk) (opts ?p1)
                     = Inl ErrPayloadTooLarge"
    by (rule MarshalMessage_too_large)
  then have s2: "sendDirect ?um ?p1 MessageTypeStreamChunk 7 (PStreamChunk ?chunk)
                   = (Some ErrPayloadTooLarge, ?p1)"
    by (rule sendDirect_err)
  have w0: "wrap64 0 = 0" and w1: "wrap64 104857600 = 104857600"
    by (simp_all add: wrap64_def)
  have loop: "sendStreamed_loop ?um ?p1 7 ?pb 104857600 1 0 = (Some ErrPayloadTooLarge, ?p1)"
    by (subst sendStreamed_loop.simps) (simp add: Let_def w0 w1 s2 [simplified])
  show ?thesis
    unfolding sendStreamed_def
    by (simp add: Let_def tc [simplified] s1 [simplified] loop [simplified])
qed

text \<open>
  The bound on \<open>L + c\<close> is needed: without it the arithmetic on \<open>int\<close> wraps. With the
  chunk size \<open>2 ^ 63 - 1\<close> and the payload \<open>[1, 2]\<close>, \<open>sendStreamed\<close> announces 4294967295
  chunks, sends the first, and panics on the slice expression of the second.
\<close>

lemma sendStreamed_int_overflow:
  "fst (sendStreamed (\<lambda>u::unit. Inr [])
          (\<lparr>conn = \<lparr>incoming = [], written = [], write_failure = None\<rparr>, opts = None, nextID = 1,
            streamConfig = \<lparr>Threshold = 1, ChunkSize = 9223372036854775807, Enabled = True\<rparr>,
            activeStreams = Map.empty\<rparr> :: unit Protocol) 3 7 [1, 2])
     = Some Panic"
proof -
  let ?M = "9223372036854775807 :: int"
  let ?cfg = "\<lparr>Threshold = 1, ChunkSize = ?M, Enabled = True\<rparr>"
  let ?p = "\<lparr>conn = \<lparr>incoming = [], written = [], write_failure = None\<rparr>, opts = None, nextID = 1,
             streamConfig = ?cfg, activeStreams = Map.empty\<rparr> :: unit Protocol"
  let ?pb = "[1, 2] :: byte list"
  let ?um = "\<lambda>u::unit. Inr []"
  let ?hdr = "\<lparr>OriginalType = 3, TotalSize = 2, TotalChunks = 4294967295\<rparr>"
  let ?d0 = "wire_format MessageTypeStreamStart 7 (StreamHeader_Marshal ?hdr) []"
  let ?p1 = "?p\<lparr>conn := (conn ?p)\<lparr>written := written (conn ?p) @ PutUint32 (of_nat (length ?d0)) @ ?d0\<rparr>\<rparr>"
  let ?chunk = "\<lparr>ChunkIndex = 0, Data = ?pb\<rparr>"
  let ?d1 = "wire_format MessageTypeStreamChunk 7 (StreamChunk_Marshal ?chunk) []"
  let ?p2 = "?p1\<lparr>conn := (conn ?p1)\<lparr>written := written (conn ?p1) @ PutUint32 (of_nat (length ?d1)) @ ?d1\<rparr>\<rparr>"
  have tc: "(word_of_int (go_div (wrap64 (wrap64 (int (length ?pb) + ?M) - 1)) ?M) :: uint32)
              = 4294967295"
    by (simp add: go_div_def wrap64_def)
  have mh: "MarshalMessage ?um MessageTypeStreamStart 7 (PStreamHeader ?hdr) (opts ?p) = Inr ?d0"
  proof -
    have "MarshalPayload ?um (PStreamHeader ?hdr) = Inr (StreamHeader_Marshal ?hdr)"
      by (simp add: MarshalPayload_def)
    moreover have "length (StreamHeader_Marshal ?hdr) \<le> MaxPayloadSize"
      using length_StreamHeader_Marshal [of ?hdr] by (simp add: MaxPayloadSize_def)
    ultimately show ?thesis using MarshalMessage_wire [of ?um _ _ MessageTypeStreamStart 7 None]
      by simp
  qed
  have s1: "sendDirect ?um ?p MessageTypeStreamStart 7 (PStreamHeader ?hdr) = (None, ?p1)"
    by (rule sendDirect_ok [OF mh]) simp
  have mc: "MarshalMessage ?um MessageTypeStreamChunk 7 (PStreamChunk ?chunk) (opts ?p1) = Inr ?d1"
  proof -
    have "MarshalPayload ?um (PStreamChunk ?chunk) = Inr (StreamChunk_Marshal ?chunk)"
      by (simp add: MarshalPayload_def)
    moreover have "length (StreamChunk_Marshal ?chunk) \<le> MaxPayloadSize"
      using length_StreamChunk_Marshal_le [of ?chunk] by (simp add: MaxPayloadSize_def)
    ultimately show ?thesis using MarshalMessage_wire [of ?um _ _ MessageTypeStreamChunk 7 None]
      by simp
  qed
  have s2: "sendDirect ?um ?p1 MessageTypeStreamChunk 7 (PStreamChunk ?chunk) = (None, ?p2)"
    by (rule sendDirect_ok [OF mc]) simp
  have w: "wrap64 0 = 0" "wrap64 ?M = ?M" "wrap64 (?M + ?M) = - 2"
    by (simp_all add: wrap64_def)
  have l1: "sendStreamed_loop ?um ?p2 7 ?pb ?M 4294967295 1 = (Some Panic, ?p2)"
    by (subst sendStreamed_loop.simps) (simp add: Let_def w word_less_nat_alt)
  have l0: "sendStreamed_loop ?um ?p1 7 ?pb ?M 4294967295 0 = (Some Panic, ?p2)"
    by (subst sendStreamed_loop.simps) (simp add: Let_def w word_less_nat_alt s2 [simplified] l1 [simplified])
  show ?thesis
    unfolding sendStreamed_def
    by (simp add: Let_def tc [simplified] s1 [simplified] l0 [simplified])
qed

section \<open>Receiving a stream in strict mode\<close>

lemma conn_ReadFull_append:
  "incoming c = xs @ rest \<Longrightarrow> conn_ReadFull (length xs) c = (Inr xs, c\<lparr>incoming := rest\<rparr>)"
  by (cases "xs = []") (auto simp: conn_ReadFull_def)

lemma receiveRaw_frame:
  assumes inc: "incoming (conn p) = frame_bytes t i pl sg @ rest"
    and sz: "length (wire_format t i pl sg)
               \<le> MaxPayloadSize + HeaderSize + SignatureLengthSize + 1024"
  shows "receiveRaw g p
           = (UnmarshalMessage g (wire_format t i pl sg) (opts p),
              p\<lparr>conn := (conn p)\<lparr>incoming := rest\<rparr>\<rparr>)"
proof -
  let ?w = "wire_format t i pl sg"
  let ?n = "of_nat (length ?w) :: uint32"
  have "length ?w < 4294967296"
    using sz by (simp add: MaxPayloadSize_def HeaderSize_def SignatureLengthSize_def
        MessageTypeSize_def MessageIDSize_def PayloadLengthSize_def)
  then have un: "unat ?n = length ?w" by (rule unat_of_nat32)
  have "incoming (conn p) = PutUint32 ?n @ (?w @ rest)"
    by (simp add: inc frame_bytes_def)
  from conn_ReadFull_append [OF this]
  have r1: "conn_ReadFull 4 (conn p) = (Inr (PutUint32 ?n), (conn p)\<lparr>incoming := ?w @ rest\<rparr>)"
    by simp
  have "incoming ((conn p)\<lparr>incoming := ?w @ rest\<rparr>) = ?w @ rest" by simp
  from conn_ReadFull_append [OF this]
  have r2: "conn_ReadFull (length ?w) ((conn p)\<lparr>incoming := ?w @ rest\<rparr>)
              = (Inr ?w, (conn p)\<lparr>incoming := rest\<rparr>)"
    by simp
  have ok: "\<not> MaxPayloadSize + HeaderSize + SignatureLengthSize + 1024 < length ?w"
    using sz by simp
  show ?thesis
    unfolding receiveRaw_def
    by (simp only: r1 prod.case sum.case Let_def Uint32_PutUint32 un ok if_False r2)
qed

lemma UnmarshalMessage_accepted:
  assumes acc: "frame_accepted opt t i pl sg" and s: "StrictMode opt"
  shows "UnmarshalMessage g (wire_format t i pl sg) (Some opt)
           = (case UnmarshalPayloadStrict (case Registry opt of None \<Rightarrow> g | Some r \<Rightarrow> r) t pl True of
                Inl e \<Rightarrow> Inl (e, Some \<lparr>Type = t, ID = i, Payload = pl, Signature = sg\<rparr>)
              | Inr obj \<Rightarrow> Inr (\<lparr>Type = t, ID = i, Payload = pl, Signature = sg\<rparr>, obj))"
proof -
  from acc have pl: "length pl \<le> MaxPayloadSize"
    by (simp add: frame_accepted_def)
  from acc have "length (wire_format t i pl sg)
                   \<le> MaxPayloadSize + HeaderSize + SignatureLengthSize + 1024"
    by (simp add: frame_accepted_def)
  then have sgl: "length sg < 4294967296"
    by (simp add: length_wire_format MaxPayloadSize_def HeaderSize_def SignatureLengthSize_def
        MessageTypeSize_def MessageIDSize_def PayloadLengthSize_def)
  from acc have ver: "case Verifier opt of
                        None \<Rightarrow> True
                      | Some verify \<Rightarrow>
                          sg \<noteq> [] \<and>
                          verify ([t] @ PutUint32 i @ PutUint32 (of_nat (length pl)) @ pl) sg = None"
    by (simp add: frame_accepted_def)
  have "UnmarshalMessage g (wire_format t i pl sg @ []) (Some opt)
           = (case UnmarshalPayloadStrict (case Registry opt of None \<Rightarrow> g | Some r \<Rightarrow> r) t pl True of
                Inl e \<Rightarrow> Inl (e, Some \<lparr>Type = t, ID = i, Payload = pl, Signature = sg\<rparr>)
              | Inr obj \<Rightarrow> Inr (\<lparr>Type = t, ID = i, Payload = pl, Signature = sg\<rparr>, obj))"
    using ver s
    by (subst UnmarshalMessage_wire [OF pl sgl])
       (auto simp: UnmarshalPayloadStrict_def UnmarshalPayloadWithRegistryStrict_def
             split: option.splits)
  then show ?thesis by simp
qed

lemma receiveRaw_strict:
  assumes inc: "incoming (conn p) = frame_bytes t i pl sg @ rest"
    and acc: "frame_accepted opt t i pl sg"
    and o: "opts p = Some opt" and s: "StrictMode opt"
  shows "receiveRaw g p
           = (case UnmarshalPayloadStrict (case Registry opt of None \<Rightarrow> g | Some r \<Rightarrow> r) t pl True of
                Inl e \<Rightarrow> Inl (e, Some \<lparr>Type = t, ID = i, Payload = pl, Signature = sg\<rparr>)
              | Inr obj \<Rightarrow> Inr (\<lparr>Type = t, ID = i, Payload = pl, Signature = sg\<rparr>, obj),
              p\<lparr>conn := (conn p)\<lparr>incoming := rest\<rparr>\<rparr>)"
proof -
  from acc have sz: "length (wire_format t i pl sg)
                       \<le> MaxPayloadSize + HeaderSize + SignatureLengthSize + 1024"
    by (simp add: frame_accepted_def)
  show ?thesis
    by (simp only: receiveRaw_frame [OF inc sz] o UnmarshalMessage_accepted [OF acc s])
qed

lemma decode_header:
  "Get reg MessageTypeStreamStart = Some StreamHeaderFactory \<Longrightarrow>
   UnmarshalPayloadStrict reg MessageTypeStreamStart (StreamHeader_Marshal h) True
     = Inr (PStreamHeader h)"
  by (simp add: UnmarshalPayloadStrict_def factory_Unmarshal_def StreamHeader_round_trip)

lemma decode_chunk:
  assumes "Get reg MessageTypeStreamChunk = Some StreamChunkFactory"
    and "length (StreamChunk_Marshal c) \<le> MaxPayloadSize"
  shows "UnmarshalPayloadStrict reg MessageTypeStreamChunk (StreamChunk_Marshal c) True
           = Inr (PStreamChunk c)"
proof -
  have "length (Data c) \<le> 2 ^ 30"
    using assms(2) length_StreamChunk_Marshal_ge [of c] by (simp add: MaxPayloadSize_def)
  then show ?thesis
    using assms(1)
    by (simp add: UnmarshalPayloadStrict_def factory_Unmarshal_def StreamChunk_round_trip)
qed

lemma decode_end:
  "Get reg MessageTypeStreamEnd = None \<Longrightarrow>
   UnmarshalPayloadStrict reg MessageTypeStreamEnd pl True = Inl ErrUnknownMessageType"
  by (simp add: UnmarshalPayloadStrict_def)

lemma ReceiveMessage_end_strict:
  assumes "incoming (conn p) = frame_bytes MessageTypeStreamEnd i pl sg @ rest"
    and "frame_accepted opt MessageTypeStreamEnd i pl sg"
    and "opts p = Some opt" and "StrictMode opt"
    and "Get (case Registry opt of None \<Rightarrow> g | Some r \<Rightarrow> r) MessageTypeStreamEnd = None"
  shows "ReceiveMessage g p = (Inl ErrUnknownMessageType, p\<lparr>conn := (conn p)\<lparr>incoming := rest\<rparr>\<rparr>)"
  by (subst ReceiveMessage.simps)
     (simp add: receiveRaw_strict [OF assms(1-4)] decode_end [OF assms(5)])

lemma ReceiveMessage_start_strict:
  assumes "incoming (conn p) = frame_bytes MessageTypeStreamStart i (StreamHeader_Marshal h) sg @ rest"
    and "frame_accepted opt MessageTypeStreamStart i (StreamHeader_Marshal h) sg"
    and "opts p = Some opt" and "StrictMode opt"
    and "Get (case Registry opt of None \<Rightarrow> g | Some r \<Rightarrow> r) MessageTypeStreamStart
           = Some StreamHeaderFactory"
  shows "ReceiveMessage g p
           = ReceiveMessage g (startStream (p\<lparr>conn := (conn p)\<lparr>incoming := rest\<rparr>\<rparr>) i h)"
  by (subst ReceiveMessage.simps)
     (simp add: receiveRaw_strict [OF assms(1-4)] decode_header [OF assms(5)])

lemma ReceiveMessage_chunk_strict:
  assumes inc: "incoming (conn p)
                  = frame_bytes MessageTypeStreamChunk i (StreamChunk_Marshal c) sg @ rest"
    and acc: "frame_accepted opt MessageTypeStreamChunk i (StreamChunk_Marshal c) sg"
    and o: "opts p = Some opt" and s: "StrictMode opt"
    and r: "Get (case Registry opt of None \<Rightarrow> g | Some r \<Rightarrow> r) MessageTypeStreamChunk
              = Some StreamChunkFactory"
    and act: "activeStreams p i = Some a"
  shows "ReceiveMessage g p =
     (let a' = a\<lparr>chunks := (chunks a)(ChunkIndex c \<mapsto> Data c), received := received a + 1\<rparr>;
          p1 = p\<lparr>conn := (conn p)\<lparr>incoming := rest\<rparr>,
                 activeStreams := (activeStreams p)(i \<mapsto> a')\<rparr>;
          p2 = p\<lparr>conn := (conn p)\<lparr>incoming := rest\<rparr>,
                 activeStreams := (activeStreams p)(i := None)\<rparr>
      in if received a + 1 = TotalChunks (header a) then
           (case assembleStream a' of
              Inl e \<Rightarrow> (Inl e, p1)
            | Inr assembled \<Rightarrow>
                (case UnmarshalPayload g (OriginalType (header a)) assembled of
                   Inl e \<Rightarrow> (Inl e, p2)
                 | Inr obj \<Rightarrow>
                     (Inr (\<lparr>Type = OriginalType (header a), ID = i, Payload = assembled,
                            Signature = []\<rparr>, obj), p2)))
         else ReceiveMessage g p1)"
proof -
  let ?p1 = "p\<lparr>conn := (conn p)\<lparr>incoming := rest\<rparr>\<rparr>"
  let ?msg = "\<lparr>Type = MessageTypeStreamChunk, ID = i, Payload = StreamChunk_Marshal c,
               Signature = sg\<rparr>"
  have act1: "activeStreams ?p1 i = Some a" using act by simp
  have ne: "MessageTypeStreamChunk \<noteq> MessageTypeStreamStart"
    by (simp add: MessageTypeStreamStart_def MessageTypeStreamChunk_def)
  from acc have fit: "length (StreamChunk_Marshal c) \<le> MaxPayloadSize"
    by (simp add: frame_accepted_def)
  have raw: "receiveRaw g p = (Inr (?msg, PStreamChunk c), ?p1)"
    by (simp add: receiveRaw_strict [OF inc acc o s] decode_chunk [OF r fit])
  show ?thesis
  proof (cases "received a + 1 = TotalChunks (header a)")
    case True
    then show ?thesis
      by (subst ReceiveMessage.simps)
         (simp add: raw ne addChunk_Some [OF act1] Let_def split: sum.split)
  next
    case False
    then show ?thesis
      by (subst ReceiveMessage.simps)
         (simp add: raw ne addChunk_Some [OF act1] Let_def)
  qed
qed

lemma unat_plus_one: "unat (r :: uint32) + 1 \<le> unat (n :: uint32) \<Longrightarrow> unat (r + 1) = unat r + 1"
proof -
  assume a: "unat r + 1 \<le> unat n"
  have "unat n < 2 ^ 32" using unsigned_less [of n, where ?'a = nat] by simp
  with a have "unat r + unat (1 :: uint32) < 2 ^ LENGTH(32)" by simp
  then show ?thesis by (simp only: unat_add_lem) simp
qed

lemma ReceiveMessage_chunks_strict:
  assumes s: "StrictMode opt"
    and r: "Get (case Registry opt of None \<Rightarrow> g | Some r \<Rightarrow> r) MessageTypeStreamChunk
              = Some StreamChunkFactory"
  shows "css \<noteq> [] \<Longrightarrow> opts p = Some opt \<Longrightarrow> activeStreams p i = Some a \<Longrightarrow>
     incoming (conn p)
       = concat (map (\<lambda>(c, sg). frame_bytes MessageTypeStreamChunk i (StreamChunk_Marshal c) sg) css)
         @ rest \<Longrightarrow>
     unat (received a) + length css = unat (TotalChunks (header a)) \<Longrightarrow>
     \<forall>(c, sg)\<in>set css. frame_accepted opt MessageTypeStreamChunk i (StreamChunk_Marshal c) sg \<Longrightarrow>
     ReceiveMessage g p =
       (let a' = a\<lparr>chunks := fold (\<lambda>c m. m(ChunkIndex c \<mapsto> Data c)) (map fst css) (chunks a),
                    received := TotalChunks (header a)\<rparr>;
            p1 = p\<lparr>conn := (conn p)\<lparr>incoming := rest\<rparr>,
                   activeStreams := (activeStreams p)(i \<mapsto> a')\<rparr>;
            p2 = p\<lparr>conn := (conn p)\<lparr>incoming := rest\<rparr>,
                   activeStreams := (activeStreams p)(i := None)\<rparr>
        in case assembleStream a' of
             Inl e \<Rightarrow> (Inl e, p1)
           | Inr assembled \<Rightarrow>
               (case UnmarshalPayload g (OriginalType (header a)) assembled of
                  Inl e \<Rightarrow> (Inl e, p2)
                | Inr obj \<Rightarrow>
                    (Inr (\<lparr>Type = OriginalType (header a), ID = i, Payload = assembled,
                           Signature = []\<rparr>, obj), p2)))"
proof (induction css arbitrary: p a)
  case Nil
  then show ?case by simp
next
  case (Cons x css)
  obtain c sg where x: "x = (c, sg)" by (cases x)
  let ?rest = "concat (map (\<lambda>(c, sg). frame_bytes MessageTypeStreamChunk i (StreamChunk_Marshal c) sg) css)
                 @ rest"
  have inc: "incoming (conn p)
               = frame_bytes MessageTypeStreamChunk i (StreamChunk_Marshal c) sg @ ?rest"
    using Cons.prems(4) by (simp add: x)
  have acc: "frame_accepted opt MessageTypeStreamChunk i (StreamChunk_Marshal c) sg"
    using Cons.prems(6) by (simp add: x)
  have accs: "\<forall>(c, sg)\<in>set css.
                frame_accepted opt MessageTypeStreamChunk i (StreamChunk_Marshal c) sg"
    using Cons.prems(6) by simp
  note step = ReceiveMessage_chunk_strict [OF inc acc Cons.prems(2) s r Cons.prems(3)]
  have u1: "unat (received a + 1) = unat (received a) + 1"
    using Cons.prems(5) by (intro unat_plus_one [of _ "TotalChunks (header a)"]) simp
  show ?case
  proof (cases "css = []")
    case True
    with Cons.prems(5) u1 have "unat (received a + 1) = unat (TotalChunks (header a))" by simp
    then have fin: "received a + 1 = TotalChunks (header a)" by (simp only: word_unat_eq_iff)
    show ?thesis unfolding step using True fin by (simp add: Let_def x del: fun_upd_apply)
  next
    case False
    with Cons.prems(5) u1 have "unat (received a + 1) \<noteq> unat (TotalChunks (header a))"
      by (cases css) simp_all
    then have nf: "received a + 1 \<noteq> TotalChunks (header a)" by (simp only: word_unat_eq_iff) simp
    let ?a1 = "a\<lparr>chunks := (chunks a)(ChunkIndex c \<mapsto> Data c), received := received a + 1\<rparr>"
    let ?p2 = "p\<lparr>conn := (conn p)\<lparr>incoming := ?rest\<rparr>,
                 activeStreams := (activeStreams p)(i \<mapsto> ?a1)\<rparr>"
    have "ReceiveMessage g p = ReceiveMessage g ?p2"
      unfolding step using nf by (simp add: Let_def del: fun_upd_apply)
    also have "\<dots> =
       (let a' = ?a1\<lparr>chunks := fold (\<lambda>c m. m(ChunkIndex c \<mapsto> Data c)) (map fst css) (chunks ?a1),
                    received := TotalChunks (header ?a1)\<rparr>;
            p1 = ?p2\<lparr>conn := (conn ?p2)\<lparr>incoming := rest\<rparr>,
                   activeStreams := (activeStreams ?p2)(i \<mapsto> a')\<rparr>;
            p2 = ?p2\<lparr>conn := (conn ?p2)\<lparr>incoming := rest\<rparr>,
                   activeStreams := (activeStreams ?p2)(i := None)\<rparr>
        in case assembleStream a' of
             Inl e \<Rightarrow> (Inl e, p1)
           | Inr assembled \<Rightarrow>
               (case UnmarshalPayload g (OriginalType (header ?a1)) assembled of
                  Inl e \<Rightarrow> (Inl e, p2)
                | Inr obj \<Rightarrow>
                    (Inr (\<lparr>Type = OriginalType (header ?a1), ID = i, Payload = assembled,
                           Signature = []\<rparr>, obj), p2)))"
      using Cons.prems(2,5) accs u1
      by (intro Cons.IH [OF False]) (simp_all add: fun_upd_same del: fun_upd_apply)
    finally show ?thesis by (simp add: Let_def x del: fun_upd_apply cong: sum.case_cong)
  qed
qed

lemma fold_chunks_other:
  "j \<notin> ChunkIndex ` set cs \<Longrightarrow> fold (\<lambda>c m. m(ChunkIndex c \<mapsto> Data c)) cs m j = m j"
  by (induction cs arbitrary: m) (auto simp del: fun_upd_apply simp: fun_upd_other)

lemma fold_chunks_lookup:
  "distinct (map ChunkIndex cs) \<Longrightarrow> k < length cs \<Longrightarrow>
   fold (\<lambda>c m. m(ChunkIndex c \<mapsto> Data c)) cs m (ChunkIndex (cs ! k)) = Some (Data (cs ! k))"
proof (induction cs arbitrary: m k)
  case Nil
  then show ?case by simp
next
  case (Cons c cs)
  show ?case
  proof (cases k)
    case 0
    with Cons.prems show ?thesis by (simp add: fold_chunks_other del: fun_upd_apply) simp
  next
    case (Suc k')
    with Cons show ?thesis by (simp del: fun_upd_apply)
  qed
qed

lemma distinct_of_nat_upt: "N \<le> 4294967296 \<Longrightarrow> distinct (map (of_nat :: nat \<Rightarrow> uint32) [0..<N])"
proof -
  assume N: "N \<le> 4294967296"
  have "inj_on (of_nat :: nat \<Rightarrow> uint32) {0..<N}"
  proof (rule inj_onI)
    fix x y assume xy: "x \<in> {0..<N}" "y \<in> {0..<N}" and e: "(of_nat x :: uint32) = of_nat y"
    from xy N have ux: "unat (of_nat x :: uint32) = x" and uy: "unat (of_nat y :: uint32) = y"
      by (simp_all add: unat_of_nat32)
    have "x = unat (of_nat x :: uint32)" by (simp only: ux)
    also have "\<dots> = unat (of_nat y :: uint32)" by (simp only: e)
    also have "\<dots> = y" by (simp only: uy)
    finally show "x = y" .
  qed
  then show ?thesis by (simp add: distinct_map)
qed

lemma assembleStream_loop_0:
  "assembleStream_loop a 0 []
     = concat (map (\<lambda>k. case chunks a (of_nat k) of None \<Rightarrow> [] | Some d \<Rightarrow> d)
                 [0 ..< unat (TotalChunks (header a))])"
  using assembleStream_loop_eq [of 0 a "[]"] by simp

lemma assembleStream_in_order:
  assumes idx: "map ChunkIndex cs = map of_nat [0..<length cs]"
    and n: "length cs = unat (TotalChunks (header a))"
    and ch: "chunks a = fold (\<lambda>c m. m(ChunkIndex c \<mapsto> Data c)) cs m"
  shows "assembleStream_loop a 0 [] = concat (map Data cs)"
proof -
  have "length cs < 2 ^ 32"
    using unsigned_less [of "TotalChunks (header a)", where ?'a = nat] n by simp
  then have "distinct (map (of_nat :: nat \<Rightarrow> uint32) [0..<length cs])"
    by (intro distinct_of_nat_upt) simp
  then have d: "distinct (map ChunkIndex cs)" by (simp only: idx)
  have look: "(case chunks a (of_nat k) of None \<Rightarrow> [] | Some d \<Rightarrow> d) = Data (cs ! k)"
    if k: "k < length cs" for k
  proof -
    have "map ChunkIndex cs ! k = map (of_nat :: nat \<Rightarrow> uint32) [0..<length cs] ! k"
      by (simp only: idx)
    then have "ChunkIndex (cs ! k) = of_nat k" using k by simp
    then have "chunks a (of_nat k) = Some (Data (cs ! k))"
      using fold_chunks_lookup [OF d k, of m] by (simp only: ch)
    then show ?thesis by (simp only: option.case)
  qed
  have "map (\<lambda>k. case chunks a (of_nat k) of None \<Rightarrow> [] | Some d \<Rightarrow> d) [0..<length cs]
               = map (\<lambda>k. Data (cs ! k)) [0..<length cs]"
    by (rule map_cong [OF refl]) (simp add: look)
  also have "\<dots> = map Data cs"
    by (rule nth_equalityI) simp_all
  finally have "concat (map (\<lambda>k. case chunks a (of_nat k) of None \<Rightarrow> [] | Some d \<Rightarrow> d)
                          [0..<unat (TotalChunks (header a))]) = concat (map Data cs)"
    by (simp only: n)
  then show ?thesis by (simp only: assembleStream_loop_0)
qed

lemma ReceiveMessage_stream_strict:
  assumes o: "opts p = Some opt" and s: "StrictMode opt"
    and r250: "Get (case Registry opt of None \<Rightarrow> g | Some r \<Rightarrow> r) MessageTypeStreamStart
                 = Some StreamHeaderFactory"
    and r251: "Get (case Registry opt of None \<Rightarrow> g | Some r \<Rightarrow> r) MessageTypeStreamChunk
                 = Some StreamChunkFactory"
    and cs: "css \<noteq> []" and len: "length css = unat (TotalChunks h)"
    and acc0: "frame_accepted opt MessageTypeStreamStart i (StreamHeader_Marshal h) sg0"
    and accs: "\<forall>(c, sg)\<in>set css.
                 frame_accepted opt MessageTypeStreamChunk i (StreamChunk_Marshal c) sg"
    and inc: "incoming (conn p)
                = frame_bytes MessageTypeStreamStart i (StreamHeader_Marshal h) sg0
                  @ concat (map (\<lambda>(c, sg). frame_bytes MessageTypeStreamChunk i
                                              (StreamChunk_Marshal c) sg) css)
                  @ rest"
  shows "ReceiveMessage g p =
     (let a' = \<lparr>header = h,
                chunks = fold (\<lambda>c m. m(ChunkIndex c \<mapsto> Data c)) (map fst css) Map.empty,
                received = TotalChunks h\<rparr>;
          p1 = p\<lparr>conn := (conn p)\<lparr>incoming := rest\<rparr>,
                 activeStreams := (activeStreams p)(i \<mapsto> a')\<rparr>;
          p2 = p\<lparr>conn := (conn p)\<lparr>incoming := rest\<rparr>,
                 activeStreams := (activeStreams p)(i := None)\<rparr>
      in case assembleStream a' of
           Inl e \<Rightarrow> (Inl e, p1)
         | Inr assembled \<Rightarrow>
             (case UnmarshalPayload g (OriginalType h) assembled of
                Inl e \<Rightarrow> (Inl e, p2)
              | Inr obj \<Rightarrow>
                  (Inr (\<lparr>Type = OriginalType h, ID = i, Payload = assembled,
                         Signature = []\<rparr>, obj), p2)))"
proof -
  let ?chunks = "concat (map (\<lambda>(c, sg). frame_bytes MessageTypeStreamChunk i
                                           (StreamChunk_Marshal c) sg) css)"
  let ?p1 = "startStream (p\<lparr>conn := (conn p)\<lparr>incoming := ?chunks @ rest\<rparr>\<rparr>) i h"
  let ?a = "\<lparr>header = h, chunks = Map.empty, received = 0\<rparr>"
  have "ReceiveMessage g p = ReceiveMessage g ?p1"
    by (rule ReceiveMessage_start_strict [OF inc acc0 o s r250])
  also have "\<dots> =
       (let a' = ?a\<lparr>chunks := fold (\<lambda>c m. m(ChunkIndex c \<mapsto> Data c)) (map fst css) (chunks ?a),
                    received := TotalChunks (header ?a)\<rparr>;
            p1 = ?p1\<lparr>conn := (conn ?p1)\<lparr>incoming := rest\<rparr>,
                   activeStreams := (activeStreams ?p1)(i \<mapsto> a')\<rparr>;
            p2 = ?p1\<lparr>conn := (conn ?p1)\<lparr>incoming := rest\<rparr>,
                   activeStreams := (activeStreams ?p1)(i := None)\<rparr>
        in case assembleStream a' of
             Inl e \<Rightarrow> (Inl e, p1)
           | Inr assembled \<Rightarrow>
               (case UnmarshalPayload g (OriginalType (header ?a)) assembled of
                  Inl e \<Rightarrow> (Inl e, p2)
                | Inr obj \<Rightarrow>
                    (Inr (\<lparr>Type = OriginalType (header ?a), ID = i, Payload = assembled,
                           Signature = []\<rparr>, obj), p2)))"
    using o len accs
    by (intro ReceiveMessage_chunks_strict [OF s r251 cs])
       (simp_all add: startStream_def fun_upd_same del: fun_upd_apply)
  finally show ?thesis
    by (simp add: Let_def startStream_def del: fun_upd_apply cong: sum.case_cong)
qed


lemma start_frame_bytes:
  "frame_bytes MessageTypeStreamStart 7
     (StreamHeader_Marshal \<lparr>OriginalType = 3, TotalSize = 2, TotalChunks = 1\<rparr>) []
     = [0, 0, 0, 16, 250, 0, 0, 0, 7, 0, 0, 0, 3, 3, 2, 1, 0, 0, 0, 0]"
  by (simp add: frame_bytes_def wire_format_def PutUint32_def StreamHeader_Marshal_def
      WriteUint32_def WriteUint64_def WriteVarint.simps MessageTypeStreamStart_def word_le_nat_alt)

lemma chunk_frame_bytes:
  "frame_bytes MessageTypeStreamChunk 7 (StreamChunk_Marshal \<lparr>ChunkIndex = 0, Data = [1, 2]\<rparr>) []
     = [0, 0, 0, 17, 251, 0, 0, 0, 7, 0, 0, 0, 4, 0, 2, 1, 2, 0, 0, 0, 0]"
  by (simp add: frame_bytes_def wire_format_def PutUint32_def StreamChunk_Marshal_def
      WriteUint32_def WriteBytes_def WriteVarint.simps MessageTypeStreamChunk_def word_le_nat_alt)

lemma end_frame_bytes:
  "frame_bytes MessageTypeStreamEnd 7 [] []
     = [0, 0, 0, 13, 252, 0, 0, 0, 7, 0, 0, 0, 0, 0, 0, 0, 0]"
  by (simp add: frame_bytes_def wire_format_def PutUint32_def MessageTypeStreamEnd_def)

lemma Get_New_3: "Get (NewPayloadRegistry :: 'u PayloadRegistry) 3 = None"
  by (simp add: Get_def NewPayloadRegistry_def registerStreamingTypes_def
      MessageTypeStreamStart_def MessageTypeStreamChunk_def)

lemma strict_setup:
  "opts (NewProtocol c (Some StrictMessageOptions)) = Some StrictMessageOptions"
  "StrictMode (StrictMessageOptions :: 'u MessageOptions)"
  "Get (case Registry (StrictMessageOptions :: 'u MessageOptions) of
          None \<Rightarrow> NewPayloadRegistry | Some r \<Rightarrow> r) MessageTypeStreamStart
     = Some StreamHeaderFactory"
  "Get (case Registry (StrictMessageOptions :: 'u MessageOptions) of
          None \<Rightarrow> NewPayloadRegistry | Some r \<Rightarrow> r) MessageTypeStreamChunk
     = Some StreamChunkFactory"
  "Get (case Registry (StrictMessageOptions :: 'u MessageOptions) of
          None \<Rightarrow> NewPayloadRegistry | Some r \<Rightarrow> r) MessageTypeStreamEnd = None"
  by (simp_all add: NewProtocol_def StrictMessageOptions_def Get_New_250 Get_New_251 Get_New_252
      MessageTypeStreamStart_def MessageTypeStreamChunk_def MessageTypeStreamEnd_def)

lemma strict_accepted:
  "length pl \<le> MaxPayloadSize \<Longrightarrow>
   frame_accepted (StrictMessageOptions :: 'u MessageOptions) t i pl []"
  by (simp add: frame_accepted_def StrictMessageOptions_def length_wire_format HeaderSize_def
      SignatureLengthSize_def MessageTypeSize_def MessageIDSize_def PayloadLengthSize_def)

lemma strict_accepted_header:
  "frame_accepted (StrictMessageOptions :: 'u MessageOptions) t i (StreamHeader_Marshal h) []"
  using length_StreamHeader_Marshal [of h]
  by (intro strict_accepted) (simp add: MaxPayloadSize_def)

lemma strict_accepted_chunk:
  "frame_accepted (StrictMessageOptions :: 'u MessageOptions) t i
     (StreamChunk_Marshal \<lparr>ChunkIndex = 0, Data = [1, 2]\<rparr>) []"
  using length_StreamChunk_Marshal_le [of "\<lparr>ChunkIndex = 0, Data = [1, 2]\<rparr>"]
  by (intro strict_accepted) (simp add: MaxPayloadSize_def)



end
